theory Spec2Isabelle
  imports Complex_Main
begin

section \<open>Rate limiter (src/rateLimiter.ts, and getTimeUntilNextRequest of rateLimiter.js)\<close>

text \<open>
  The class \<open>RateLimiter\<close> holds three configuration numbers and the list of recorded
  request timestamps. Timestamps are the integer milliseconds of \<open>Date.now()\<close>. Every
  method that reads the clock takes its reading as an argument: \<open>getTimeUntilNextRequest\<close>
  reads the clock twice (once inside \<open>canMakeRequest\<close>, once itself), so it takes two
  readings, on which nothing is assumed.
\<close>

record RateLimiter =
  requestsPerMinute :: int
  burstLimit :: int
  windowMs :: int
  requests :: "int list"

text \<open>
  \<open>canMakeRequest\<close> first replaces \<open>this.requests\<close> by the entries younger than
  \<open>windowMs\<close>, then compares the length of what is left with \<open>burstLimit\<close>, then the
  number of entries younger than 60000 ms with \<open>requestsPerMinute\<close>. The model returns
  the answer together with the limiter as the call leaves it.
\<close>

definition canMakeRequest :: "int \<Rightarrow> RateLimiter \<Rightarrow> bool \<times> RateLimiter" where
  "canMakeRequest now rl =
     (let rl1 = rl\<lparr>requests := filter (\<lambda>timestamp. now - timestamp < windowMs rl) (requests rl)\<rparr>
      in if burstLimit rl1 \<le> int (length (requests rl1)) then (False, rl1)
         else let requestsInWindow = filter (\<lambda>timestamp. now - timestamp < 60000) (requests rl1)
              in if requestsPerMinute rl1 \<le> int (length requestsInWindow) then (False, rl1)
                 else (True, rl1))"

definition recordRequest :: "int \<Rightarrow> RateLimiter \<Rightarrow> RateLimiter" where
  "recordRequest now rl = rl\<lparr>requests := requests rl @ [now]\<rparr>"

text \<open>
  \<open>Math.min(...xs)\<close> of a non-empty array, as a left-to-right scan from its first
  element. Both uses in rateLimiter.ts are guarded by a test that the array is not
  empty.
\<close>

fun mathMin :: "int \<Rightarrow> int list \<Rightarrow> int" where
  "mathMin m [] = m"
| "mathMin m (x # xs) = mathMin (min m x) xs"

definition getTimeUntilNextRequest :: "int \<Rightarrow> int \<Rightarrow> RateLimiter \<Rightarrow> int \<times> RateLimiter" where
  "getTimeUntilNextRequest now0 now rl =
     (case canMakeRequest now0 rl of
        (True, rl1) \<Rightarrow> (0, rl1)
      | (False, rl1) \<Rightarrow>
          (case requests rl1 of
             [] \<Rightarrow> (0, rl1)
           | r # rs \<Rightarrow>
               (let oldestRequest = mathMin r rs;
                    timeSinceOldest = now - oldestRequest;
                    burstClearTime = windowMs rl1 - timeSinceOldest;
                    recentRequests = filter (\<lambda>timestamp. now - timestamp < 60000) (requests rl1)
                in case recentRequests of
                     [] \<Rightarrow> (max 0 burstClearTime, rl1)
                   | q # qs \<Rightarrow>
                       (let oldestRecent = mathMin q qs;
                            rateClearTime = 60000 - (now - oldestRecent)
                        in (max 0 (min burstClearTime rateClearTime), rl1)))))"

text \<open>
  \<open>waitForNextRequest\<close> sleeps for the computed time when it is positive. The sleep is
  returned as \<open>Some waitTime\<close>, no sleep as \<open>None\<close>.
\<close>

definition waitForNextRequest :: "int \<Rightarrow> int \<Rightarrow> RateLimiter \<Rightarrow> int option \<times> RateLimiter" where
  "waitForNextRequest now0 now rl =
     (case getTimeUntilNextRequest now0 now rl of
        (waitTime, rl1) \<Rightarrow> (if 0 < waitTime then Some waitTime else None, rl1))"

text \<open>
  A value thrown by an awaited operation (the value a promise is rejected with): an
  \<open>Error\<close> object with its message, \<open>null\<close>, \<open>undefined\<close>, or any other value, kept
  as the string \<open>String(error)\<close> gives for it. Reading a property of \<open>null\<close> or
  \<open>undefined\<close> throws a \<open>TypeError\<close>; the message given to it here is the one of
  V8, and nothing stated below depends on its text.
\<close>

datatype thrown = ErrorObj string | NonError string | Null | Undefined

definition isNullish :: "thrown \<Rightarrow> bool" where
  "isNullish e = (e = Null \<or> e = Undefined)"

definition typeErrorReading :: "thrown \<Rightarrow> string \<Rightarrow> thrown" where
  "typeErrorReading e property =
     ErrorObj (''Cannot read properties of '' @ (if e = Null then ''null'' else ''undefined'')
               @ '' (reading '' @ [CHR 0x27] @ property @ [CHR 0x27] @ '')'')"

text \<open>
  \<open>executeWithRateLimit\<close> awaits \<open>waitForNextRequest\<close>, awaits the operation and
  records one request, in the \<open>try\<close> branch after a result and in the \<open>catch\<close> branch
  before throwing the caught value again. The operation is given by its outcome;
  \<open>tdone\<close> is the clock reading of \<open>recordRequest\<close>. What the call does is kept, in the
  order in which it does it, as a list of effects: the sleep of \<open>waitForNextRequest\<close>
  when there is one, the invocation of the operation, the recording, and the return or
  the throw that ends the call.
\<close>

datatype effect = Slept int | Invoked | Recorded int | ReturnedResult | ThrewError

record 'a limitedCall =
  answer :: "thrown + 'a"
  limiter :: RateLimiter
  effects :: "effect list"

definition executeWithRateLimit ::
  "(thrown + 'a) \<Rightarrow> int \<Rightarrow> int \<Rightarrow> int \<Rightarrow> RateLimiter \<Rightarrow> 'a limitedCall" where
  "executeWithRateLimit fn now0 now tdone rl =
     (case waitForNextRequest now0 now rl of
        (slept, rl1) \<Rightarrow>
          (let waited = (case slept of None \<Rightarrow> [] | Some waitTime \<Rightarrow> [Slept waitTime])
           in case fn of
                Inr result \<Rightarrow>
                  \<lparr>answer = Inr result, limiter = recordRequest tdone rl1,
                   effects = waited @ [Invoked, Recorded tdone, ReturnedResult]\<rparr>
              | Inl error \<Rightarrow>
                  \<lparr>answer = Inl error, limiter = recordRequest tdone rl1,
                   effects = waited @ [Invoked, Recorded tdone, ThrewError]\<rparr>))"

text \<open>
  \<open>getTimeUntilNextRequest\<close> of the JavaScript class (rateLimiter.js), whose
  \<open>canMakeRequest\<close> is the one above. It has no test for an empty list and no
  \<open>Math.max(0, ...)\<close>. \<open>Math.min()\<close> of no arguments is \<open>Infinity\<close>, which makes a
  clear time computed from an empty list \<open>Infinity\<close>; \<open>None\<close> stands for \<open>Infinity\<close>.
\<close>

definition getTimeUntilNextRequest_js :: "int \<Rightarrow> int \<Rightarrow> RateLimiter \<Rightarrow> int option \<times> RateLimiter" where
  "getTimeUntilNextRequest_js now0 now rl =
     (case canMakeRequest now0 rl of
        (True, rl1) \<Rightarrow> (Some 0, rl1)
      | (False, rl1) \<Rightarrow>
          (let burstClearTime =
                 (case requests rl1 of
                    [] \<Rightarrow> None
                  | r # rs \<Rightarrow> Some (windowMs rl1 - (now - mathMin r rs)));
               rateClearTime =
                 (case filter (\<lambda>timestamp. now - timestamp < 60000) (requests rl1) of
                    [] \<Rightarrow> None
                  | q # qs \<Rightarrow> Some (60000 - (now - mathMin q qs)))
           in (case burstClearTime of
                 None \<Rightarrow> rateClearTime
               | Some b \<Rightarrow> (case rateClearTime of None \<Rightarrow> Some b | Some r \<Rightarrow> Some (min b r)),
               rl1)))"

text \<open>
  The entries \<open>canMakeRequest\<close> keeps: those younger than \<open>windowMs\<close> at the reading
  \<open>now\<close>. Used to state what the limiter holds after a call.
\<close>

definition prunedRequests :: "int \<Rightarrow> RateLimiter \<Rightarrow> int list" where
  "prunedRequests now rl = filter (\<lambda>timestamp. now - timestamp < windowMs rl) (requests rl)"

definition isRecorded :: "effect \<Rightarrow> bool" where
  "isRecorded e = (case e of Recorded t \<Rightarrow> True | _ \<Rightarrow> False)"

text \<open>
  An example limiter, \<open>new RateLimiter(30, 2, 120000)\<close> after two requests recorded at
  50000 and 51000, as two calls of \<open>executeWithRateLimit\<close> one after the other leave
  it.
\<close>

definition sampleLimiter :: RateLimiter where
  "sampleLimiter =
     \<lparr>requestsPerMinute = 30, burstLimit = 2, windowMs = 120000, requests = [50000, 51000]\<rparr>"

section \<open>Retry policy (src/utils.ts, and retryWithBackoff of utils.js)\<close>

text \<open>
  The two constants of \<open>CONFIG.api\<close> that \<open>retryWithBackoff\<close> reads.
\<close>

definition backoffMultiplier :: int where "backoffMultiplier = 2"
definition maxBackoffTime :: int where "maxBackoffTime = 30000"

text \<open>
  \<open>lastError = error instanceof Error ? error : new Error(String(error))\<close>: a thrown
  \<open>Error\<close> is kept, any other thrown value is wrapped in an \<open>Error\<close> whose message is
  its string.
\<close>

fun toError :: "thrown \<Rightarrow> thrown" where
  "toError (ErrorObj message) = ErrorObj message"
| "toError (NonError s) = ErrorObj s"
| "toError Null = ErrorObj ''null''"
| "toError Undefined = ErrorObj ''undefined''"

text \<open>
  What one call of \<open>retryWithBackoff\<close> did: the value it returned or the error it threw,
  the delays it slept in order, and how many times it invoked the operation.
\<close>

record 'a retryRun =
  settled :: "thrown + 'a"
  delays :: "int list"
  calls :: nat

text \<open>
  The \<open>for\<close> loop, from the iteration \<open>attempt\<close> on. The operation is given as the
  outcome of each of its invocations, \<open>fn k\<close> for the invocation after \<open>k\<close> earlier
  ones. \<open>maxRetries\<close> is any integer; a negative one skips the loop and reaches the
  \<open>throw\<close> after it.
\<close>

function retryLoop ::
  "(nat \<Rightarrow> thrown + 'a) \<Rightarrow> int \<Rightarrow> int \<Rightarrow> nat \<Rightarrow> thrown option \<Rightarrow> int list \<Rightarrow> nat \<Rightarrow> 'a retryRun" where
  "retryLoop fn maxRetries baseDelay attempt lastError slept ncalls =
     (if int attempt \<le> maxRetries then
        (case fn ncalls of
           Inr result \<Rightarrow> \<lparr>settled = Inr result, delays = slept, calls = ncalls + 1\<rparr>
         | Inl error \<Rightarrow>
             (let lastError1 = toError error
              in if int attempt = maxRetries
                 then \<lparr>settled = Inl lastError1, delays = slept, calls = ncalls + 1\<rparr>
                 else (let delay = min (baseDelay * backoffMultiplier ^ attempt) maxBackoffTime
                       in retryLoop fn maxRetries baseDelay (attempt + 1) (Some lastError1)
                            (slept @ [delay]) (ncalls + 1))))
      else \<lparr>settled = Inl (case lastError of Some e \<Rightarrow> e | None \<Rightarrow> ErrorObj ''Retry failed''),
             delays = slept, calls = ncalls\<rparr>)"
  by pat_completeness auto
termination
  by (relation "measure (\<lambda>(fn, maxRetries, baseDelay, attempt, lastError, slept, ncalls).
        nat (maxRetries + 1 - int attempt))") auto

definition retryWithBackoff :: "(nat \<Rightarrow> thrown + 'a) \<Rightarrow> int \<Rightarrow> int \<Rightarrow> 'a retryRun" where
  "retryWithBackoff fn maxRetries baseDelay = retryLoop fn maxRetries baseDelay 0 None [] 0"

text \<open>
  \<open>retryWithBackoff\<close> of utils.js. Its \<open>catch\<close> block keeps the thrown value as it
  is and throws it again when the attempt was the last one. Otherwise it computes the
  delay and logs two warnings before it sleeps; the second is
  \<open>console.warn(`   Error: ${error.message}`)\<close>, which reads the property \<open>message\<close>
  of the thrown value: when that value is \<open>null\<close> or \<open>undefined\<close> the read throws
  a \<open>TypeError\<close> inside the \<open>catch\<close> block, which leaves the function with no sleep
  and no further attempt. There is no \<open>throw\<close> after the loop: when the loop is
  skipped the function returns \<open>undefined\<close>, here \<open>Inr None\<close>. The variable
  \<open>lastError\<close> is assigned and never read, and is left out. \<open>maxRetries\<close> is an
  integer, as the configuration gives it.
\<close>

function retryLoop_js ::
  "(nat \<Rightarrow> thrown + 'a) \<Rightarrow> int \<Rightarrow> int \<Rightarrow> nat \<Rightarrow> int list \<Rightarrow> nat \<Rightarrow> 'a option retryRun" where
  "retryLoop_js fn maxRetries baseDelay attempt slept ncalls =
     (if int attempt \<le> maxRetries then
        (case fn ncalls of
           Inr result \<Rightarrow> \<lparr>settled = Inr (Some result), delays = slept, calls = ncalls + 1\<rparr>
         | Inl error \<Rightarrow>
             (if int attempt = maxRetries
              then \<lparr>settled = Inl error, delays = slept, calls = ncalls + 1\<rparr>
              else (let delay = min (baseDelay * backoffMultiplier ^ attempt) maxBackoffTime
                    in if isNullish error
                       then \<lparr>settled = Inl (typeErrorReading error ''message''),
                             delays = slept, calls = ncalls + 1\<rparr>
                       else retryLoop_js fn maxRetries baseDelay (attempt + 1)
                              (slept @ [delay]) (ncalls + 1))))
      else \<lparr>settled = Inr None, delays = slept, calls = ncalls\<rparr>)"
  by pat_completeness auto
termination
  by (relation "measure (\<lambda>(fn, maxRetries, baseDelay, attempt, slept, ncalls).
        nat (maxRetries + 1 - int attempt))") auto

definition retryWithBackoff_js :: "(nat \<Rightarrow> thrown + 'a) \<Rightarrow> int \<Rightarrow> int \<Rightarrow> 'a option retryRun" where
  "retryWithBackoff_js fn maxRetries baseDelay = retryLoop_js fn maxRetries baseDelay 0 [] 0"

text \<open>
  How a run of the JavaScript function reads as a run of the TypeScript one: the thrown
  value wrapped as \<open>toError\<close> wraps it, and the \<open>undefined\<close> returned for a skipped
  loop replaced by the error thrown after the loop.
\<close>

definition asTypeScriptRun :: "'a option retryRun \<Rightarrow> 'a retryRun" where
  "asTypeScriptRun r =
     \<lparr>settled = (case settled r of
                   Inl e \<Rightarrow> Inl (toError e)
                 | Inr (Some v) \<Rightarrow> Inr v
                 | Inr None \<Rightarrow> Inl (ErrorObj ''Retry failed'')),
      delays = delays r, calls = calls r\<rparr>"

text \<open>
  An operation whose first invocation throws \<open>undefined\<close> and whose later invocations
  return 7.
\<close>

definition throwsUndefinedOnce :: "nat \<Rightarrow> thrown + int" where
  "throwsUndefinedOnce k = (if k = 0 then Inl Undefined else Inr 7)"

text \<open>The delay slept after the failure of attempt \<open>k\<close>.\<close>

definition backoffDelay :: "int \<Rightarrow> nat \<Rightarrow> int" where
  "backoffDelay baseDelay k = min (baseDelay * backoffMultiplier ^ k) maxBackoffTime"

section \<open>Validators (src/utils.ts)\<close>

text \<open>
  The regular expressions \<open>/^0x[a-fA-F0-9]{40}$/\<close> and \<open>/^0x[a-fA-F0-9]{64}$/\<close>,
  written out: the two characters \<open>0x\<close> followed by exactly 40 (or 64) hexadecimal
  digits of either case, and nothing else.
\<close>

definition isHexDigit :: "char \<Rightarrow> bool" where
  "isHexDigit c = (c \<in> set ''0123456789abcdefABCDEF'')"

definition isValidAddress :: "string \<Rightarrow> bool" where
  "isValidAddress address =
     (case address of
        a # b # hex \<Rightarrow> a = CHR ''0'' \<and> b = CHR ''x'' \<and> length hex = 40 \<and> list_all isHexDigit hex
      | _ \<Rightarrow> False)"

definition isValidBytes32 :: "string \<Rightarrow> bool" where
  "isValidBytes32 hash =
     (case hash of
        a # b # hex \<Rightarrow> a = CHR ''0'' \<and> b = CHR ''x'' \<and> length hex = 64 \<and> list_all isHexDigit hex
      | _ \<Rightarrow> False)"

section \<open>Position fetcher: grouping (getRedeemablePositions in src/redeem.ts and redeem.js)\<close>

text \<open>
  A raw record of the data API. A field that may be missing is an option. The fields the
  code passes through \<open>Number(...)\<close> hold the number that conversion gives, \<open>None\<close> for
  \<open>NaN\<close> (a missing field, or text that is no number). Numbers are exact reals here;
  JavaScript's are doubles, whose rounding the model leaves out. The fields carry the
  prefix \<open>raw_\<close>, the grouped position having fields of the same names.
\<close>

record RawPositionData =
  raw_conditionId :: "string option"
  raw_title :: "string option"
  raw_negativeRisk :: "bool option"
  raw_outcome :: "string option"
  raw_outcomeIndex :: "real option"
  raw_size :: "real option"
  raw_currentValue :: "real option"

record Outcome =
  outcome :: string
  outcomeIndex :: real
  size' :: real
  value' :: real

record Position =
  conditionId :: string
  title :: string
  negativeRisk :: bool
  outcomes :: "Outcome list"
  totalValue :: real
  totalSize :: real

text \<open>
  \<open>s || d\<close> on an optional string (a missing or empty string gives the default),
  \<open>Boolean(b)\<close> on an optional boolean, and \<open>Number(x) || 0\<close> (\<open>NaN\<close> and 0 give 0).
\<close>

definition stringOr :: "string option \<Rightarrow> string \<Rightarrow> string" where
  "stringOr s d = (case s of None \<Rightarrow> d | Some t \<Rightarrow> if t = [] then d else t)"

definition toBoolean :: "bool option \<Rightarrow> bool" where
  "toBoolean b = (case b of None \<Rightarrow> False | Some v \<Rightarrow> v)"

definition numberOr0 :: "real option \<Rightarrow> real" where
  "numberOr0 x = (case x of None \<Rightarrow> 0 | Some v \<Rightarrow> if v = 0 then 0 else v)"

text \<open>
  The \<open>Map\<close> of the grouping loop, as the list of its entries in insertion order.
  \<open>mapSet\<close> on a key that is present replaces its value in place; on a new key it adds
  the entry at the end.
\<close>

definition mapHas :: "('k \<times> 'v) list \<Rightarrow> 'k \<Rightarrow> bool" where
  "mapHas m k = (k \<in> set (map fst m))"

definition mapGet :: "('k \<times> 'v) list \<Rightarrow> 'k \<Rightarrow> 'v option" where
  "mapGet m k = map_of m k"

definition mapSet :: "('k \<times> 'v) list \<Rightarrow> 'k \<Rightarrow> 'v \<Rightarrow> ('k \<times> 'v) list" where
  "mapSet m k v =
     (if mapHas m k then map (\<lambda>(k1, v1). if k1 = k then (k1, v) else (k1, v1)) m
      else m @ [(k, v)])"

definition mapValues :: "('k \<times> 'v) list \<Rightarrow> 'v list" where
  "mapValues m = map snd m"

text \<open>The outcome object built from one raw record.\<close>

definition toOutcome :: "RawPositionData \<Rightarrow> Outcome" where
  "toOutcome pos =
     \<lparr>outcome = stringOr (raw_outcome pos) ''Unknown'',
      outcomeIndex = numberOr0 (raw_outcomeIndex pos),
      size' = max 0 (numberOr0 (raw_size pos)),
      value' = max 0 (numberOr0 (raw_currentValue pos))\<rparr>"

text \<open>
  One iteration of \<open>for (const pos of positions)\<close>. The state is the map and the list
  of records skipped with a warning. The group is changed in place in the source; here
  the changed group is stored back under its key. \<open>byCondition.get(cid)\<close> cannot miss,
  the key having just been set; that branch leaves the state as it is.
\<close>

definition groupStep ::
  "(string \<times> Position) list \<times> RawPositionData list \<Rightarrow> RawPositionData \<Rightarrow>
   (string \<times> Position) list \<times> RawPositionData list" where
  "groupStep st pos =
     (case st of (byCondition, skipped) \<Rightarrow>
        (case raw_conditionId pos of
           None \<Rightarrow> (byCondition, skipped @ [pos])
         | Some cid \<Rightarrow>
             if cid = [] \<or> \<not> isValidBytes32 cid then (byCondition, skipped @ [pos])
             else
               (let byCondition1 =
                      (if \<not> mapHas byCondition cid
                       then mapSet byCondition cid
                              \<lparr>conditionId = cid,
                               title = stringOr (raw_title pos) ''Unknown Market'',
                               negativeRisk = toBoolean (raw_negativeRisk pos),
                               outcomes = [], totalValue = 0, totalSize = 0\<rparr>
                       else byCondition);
                    outcome = toOutcome pos
                in case mapGet byCondition1 cid of
                     None \<Rightarrow> (byCondition1, skipped)
                   | Some grp \<Rightarrow>
                       (mapSet byCondition1 cid
                          (grp\<lparr>outcomes := outcomes grp @ [outcome],
                                totalValue := totalValue grp + value' outcome,
                                totalSize := totalSize grp + size' outcome\<rparr>),
                        skipped))))"

text \<open>
  The grouping loop over the fetched array and \<open>Array.from(byCondition.values())\<close>,
  together with the records that were skipped.
\<close>

definition groupByCondition :: "RawPositionData list \<Rightarrow> Position list \<times> RawPositionData list" where
  "groupByCondition positions =
     (case foldl groupStep ([], []) positions of
        (byCondition, skipped) \<Rightarrow> (mapValues byCondition, skipped))"

text \<open>
  \<open>getRedeemablePositions\<close>: the address check, the fetch (given by the outcome of the
  rate-limited, retried request) and the grouping.
\<close>

definition getRedeemablePositions ::
  "string \<Rightarrow> (thrown + RawPositionData list) \<Rightarrow> thrown + Position list" where
  "getRedeemablePositions walletAddress fetched =
     (if \<not> isValidAddress walletAddress
      then Inl (ErrorObj (''Invalid wallet address: '' @ walletAddress))
      else (case fetched of
              Inl error \<Rightarrow> Inl error
            | Inr positions \<Rightarrow> Inr (fst (groupByCondition positions))))"

text \<open>
  What the grouping is to compute, stated on the whole input: the records with a
  well-formed condition identifier, the identifiers in the order of their first
  appearance, and for each identifier the group of its records.
\<close>

definition validPosition :: "RawPositionData \<Rightarrow> bool" where
  "validPosition pos =
     (case raw_conditionId pos of None \<Rightarrow> False | Some cid \<Rightarrow> cid \<noteq> [] \<and> isValidBytes32 cid)"

definition cidOf :: "RawPositionData \<Rightarrow> string" where
  "cidOf pos = (case raw_conditionId pos of None \<Rightarrow> [] | Some cid \<Rightarrow> cid)"

fun firstAppearances :: "'a list \<Rightarrow> 'a list" where
  "firstAppearances [] = []"
| "firstAppearances (x # xs) = x # filter (\<lambda>y. y \<noteq> x) (firstAppearances xs)"

definition groupOf :: "RawPositionData list \<Rightarrow> string \<Rightarrow> Position" where
  "groupOf records cid =
     (let members = filter (\<lambda>pos. cidOf pos = cid) records
      in \<lparr>conditionId = cid,
          title = (case members of [] \<Rightarrow> [] | first # _ \<Rightarrow> stringOr (raw_title first) ''Unknown Market''),
          negativeRisk = (case members of [] \<Rightarrow> False | first # _ \<Rightarrow> toBoolean (raw_negativeRisk first)),
          outcomes = map toOutcome members,
          totalValue = sum_list (map (\<lambda>pos. max 0 (numberOr0 (raw_currentValue pos))) members),
          totalSize = sum_list (map (\<lambda>pos. max 0 (numberOr0 (raw_size pos))) members)\<rparr>)"

definition groupedPositions :: "RawPositionData list \<Rightarrow> Position list" where
  "groupedPositions positions =
     (let valid = filter validPosition positions
      in map (groupOf valid) (firstAppearances (map cidOf valid)))"

text \<open>The map the loop holds after the valid records \<open>valid\<close>.\<close>

definition groupsAfter :: "RawPositionData list \<Rightarrow> (string \<times> Position) list" where
  "groupsAfter valid = map (\<lambda>cid. (cid, groupOf valid cid)) (firstAppearances (map cidOf valid))"

text \<open>
  An example input: two records of one condition around a record with the malformed
  identifier \<open>0xA\<close>, and one record of a second condition with a negative size.
\<close>

definition sampleRecords :: "RawPositionData list" where
  "sampleRecords =
     [\<lparr>raw_conditionId = Some (''0x'' @ replicate 64 CHR ''a''), raw_title = Some ''M1'',
       raw_negativeRisk = None, raw_outcome = Some ''YES'', raw_outcomeIndex = Some 0,
       raw_size = Some 10, raw_currentValue = Some 10\<rparr>,
      \<lparr>raw_conditionId = Some ''0xA'', raw_title = None,
       raw_negativeRisk = None, raw_outcome = None, raw_outcomeIndex = None,
       raw_size = None, raw_currentValue = None\<rparr>,
      \<lparr>raw_conditionId = Some (''0x'' @ replicate 64 CHR ''B''), raw_title = None,
       raw_negativeRisk = Some True, raw_outcome = Some ''YES'', raw_outcomeIndex = Some 0,
       raw_size = Some (- 3), raw_currentValue = Some 5\<rparr>,
      \<lparr>raw_conditionId = Some (''0x'' @ replicate 64 CHR ''a''), raw_title = Some ''other'',
       raw_negativeRisk = None, raw_outcome = Some ''NO'', raw_outcomeIndex = Some 1,
       raw_size = Some 0, raw_currentValue = None\<rparr>]"

section \<open>Transaction builders (src/transactions.ts, and createNegRiskRedeemTx of redeem.js)\<close>

text \<open>The contract addresses of \<open>CONFIG.contracts\<close> and viem's \<open>zeroHash\<close>.\<close>

definition ctf :: string where
  "ctf = ''0x4D97DCd97eC945f40cF65F87097ACe5EA0476045''"

definition usdc :: string where
  "usdc = ''0x2791Bca1f2de4661ED88A30C99A7a9449Aa84174''"

definition negRiskAdapter :: string where
  "negRiskAdapter = ''0xd91E80cF2E7be2e162c6513ceD06f1dD0dA35296''"

definition zeroHash :: string where
  "zeroHash = ''0x'' @ replicate 64 CHR ''0''"

text \<open>
  The ABI encoder (\<open>encodeFunctionData\<close> of viem, \<open>Interface.encodeFunctionData\<close> of
  ethers) is a library function and not part of the repository. The builders take it as
  the parameter \<open>enc\<close>: given which of the two \<open>redeemPositions\<close> functions is called
  and the argument list, it returns the payload or throws. Nothing is assumed of it.
\<close>

datatype abiFunction = CtfRedeemPositions | NegRiskRedeemPositions

datatype abiArg = AbiAddress string | AbiBytes32 string | AbiUintArray "int list"

type_synonym 'd encoder = "abiFunction \<Rightarrow> abiArg list \<Rightarrow> thrown + 'd"

text \<open>
  The \<open>Transaction\<close> object; its field \<open>value\<close> is named \<open>txValue\<close> here.
\<close>

record 'd Transaction =
  to :: string
  data :: 'd
  txValue :: string

text \<open>The decimal text of a bigint, as a template literal renders it.\<close>

function natToString :: "nat \<Rightarrow> string" where
  "natToString n =
     (if n < 10 then [''0123456789'' ! n]
      else natToString (n div 10) @ [''0123456789'' ! (n mod 10)])"
  by pat_completeness auto
termination
  by (relation "measure id") auto

definition bigintToString :: "int \<Rightarrow> string" where
  "bigintToString i = (if i < 0 then CHR ''-'' # natToString (nat (- i)) else natToString (nat i))"

definition createCtfRedeemTx :: "'d encoder \<Rightarrow> string \<Rightarrow> thrown + 'd Transaction" where
  "createCtfRedeemTx enc conditionId' =
     (if \<not> isValidBytes32 conditionId'
      then Inl (ErrorObj (''Invalid condition ID: '' @ conditionId'))
      else (case enc CtfRedeemPositions
                   [AbiAddress usdc, AbiBytes32 zeroHash, AbiBytes32 conditionId', AbiUintArray [1, 2]] of
              Inl error \<Rightarrow> Inl error
            | Inr d \<Rightarrow> Inr \<lparr>to = ctf, data = d, txValue = ''0''\<rparr>))"

text \<open>
  \<open>createNegRiskRedeemTx\<close> of src/transactions.ts. The amounts are bigints; the loop
  over them throws at the first negative one.
\<close>

definition createNegRiskRedeemTx :: "'d encoder \<Rightarrow> string \<Rightarrow> int list \<Rightarrow> thrown + 'd Transaction" where
  "createNegRiskRedeemTx enc conditionId' amounts =
     (if \<not> isValidBytes32 conditionId'
      then Inl (ErrorObj (''Invalid condition ID: '' @ conditionId'))
      else if amounts = []
      then Inl (ErrorObj ''Amounts must be a non-empty array'')
      else (case find (\<lambda>amount. amount < 0) amounts of
              Some amount \<Rightarrow>
                Inl (ErrorObj (''Invalid amount: '' @ bigintToString amount @ ''. Must be non-negative bigint.''))
            | None \<Rightarrow>
                (case enc NegRiskRedeemPositions [AbiBytes32 conditionId', AbiUintArray amounts] of
                   Inl error \<Rightarrow> Inl error
                 | Inr d \<Rightarrow> Inr \<lparr>to = negRiskAdapter, data = d, txValue = ''0''\<rparr>)))"

text \<open>
  \<open>calculateRedeemAmounts\<close>: \<open>BigInt(Math.max(0, Math.floor(size * 1e6)))\<close> for each
  size. The sizes are real numbers here and the product and the floor are exact, where
  the code multiplies two double-precision numbers and rounds the product before
  \<open>Math.floor\<close>: for the size 0.29 the exact floor is 289999 and the code gives
  \<open>290000n\<close>. The sizes \<open>NaN\<close> and \<open>Infinity\<close>, for which \<open>BigInt\<close> throws, have
  no counterpart. No statement below depends on the amounts computed: they are passed to
  the builder, whose validation and payload are stated for every list of amounts.
\<close>

definition calculateRedeemAmounts :: "real list \<Rightarrow> int list" where
  "calculateRedeemAmounts sizes = map (\<lambda>size. max 0 \<lfloor>size * 1000000\<rfloor>) sizes"

text \<open>
  \<open>createNegRiskRedeemTx\<close> of redeem.js. The amounts are JavaScript numbers; the loop
  throws at the first one that is not an integer or is not positive. The text a template
  literal gives for a number is the parameter \<open>numberToString\<close>.
\<close>

definition isInteger :: "real \<Rightarrow> bool" where
  "isInteger x = (of_int \<lfloor>x\<rfloor> = x)"

definition createNegRiskRedeemTx_js ::
  "'d encoder \<Rightarrow> (real \<Rightarrow> string) \<Rightarrow> string \<Rightarrow> real list \<Rightarrow> thrown + 'd Transaction" where
  "createNegRiskRedeemTx_js enc numberToString conditionId' amounts =
     (if \<not> isValidBytes32 conditionId'
      then Inl (ErrorObj (''Invalid condition ID: '' @ conditionId'))
      else if amounts = []
      then Inl (ErrorObj ''Amounts must be a non-empty array'')
      else (case find (\<lambda>amount. \<not> isInteger amount \<or> amount \<le> 0) amounts of
              Some amount \<Rightarrow>
                Inl (ErrorObj (''Invalid amount: '' @ numberToString amount @ ''. Must be positive integer.''))
            | None \<Rightarrow>
                (case enc NegRiskRedeemPositions [AbiBytes32 conditionId', AbiUintArray (map floor amounts)] of
                   Inl error \<Rightarrow> Inl error
                 | Inr d \<Rightarrow> Inr \<lparr>to = negRiskAdapter, data = d, txValue = ''0''\<rparr>)))"

section \<open>Redemption of one position and the aggregate (main in src/redeem.ts)\<close>

record RedemptionResult =
  success :: bool
  txHash :: "string option"
  url :: "string option"
  error :: "string option"

text \<open>The object \<open>response.wait()\<close> resolves to, as far as the code reads it.\<close>

record txResult =
  transactionHash :: "string option"
  state :: "string option"

text \<open>
  \<open>withTimeout\<close> races a promise against a timer. The promise is given by how it
  settles, \<open>None\<close> when the timer fires first.
\<close>

definition withTimeout :: "(thrown + 'a) option \<Rightarrow> string \<Rightarrow> thrown + 'a" where
  "withTimeout promise errorMessage =
     (case promise of None \<Rightarrow> Inl (ErrorObj errorMessage) | Some how \<Rightarrow> how)"

text \<open>
  \<open>error instanceof Error ? error.message : 'Unknown error'\<close>, and the \<open>catch\<close>
  block of the closure. After the message is computed the block reads
  \<open>errorWithTx.transactionHash\<close> of the caught value, to print a link when it carries a
  transaction hash: when the caught value is \<open>null\<close> or \<open>undefined\<close> that read throws
  a \<open>TypeError\<close> inside the \<open>catch\<close> block, so the closure's promise is rejected
  (\<open>Inl\<close>) instead of resolving to a result object (\<open>Inr\<close>).
\<close>

definition errorMsgOf :: "thrown \<Rightarrow> string" where
  "errorMsgOf err = (case err of ErrorObj message \<Rightarrow> message | _ \<Rightarrow> ''Unknown error'')"

definition caught :: "thrown \<Rightarrow> thrown + RedemptionResult" where
  "caught err =
     (let errorMsg = errorMsgOf err
      in if isNullish err then Inl (typeErrorReading err ''transactionHash'')
         else Inr \<lparr>success = False, txHash = None, url = None, error = Some errorMsg\<rparr>)"

text \<open>
  The classification of what \<open>response.wait()\<close> resolved to: \<open>None\<close> is \<open>null\<close>; a
  transaction hash counts when it is present and not the empty string.
\<close>

definition classify :: "txResult option \<Rightarrow> RedemptionResult" where
  "classify txRes =
     (case txRes of
        None \<Rightarrow> \<lparr>success = False, txHash = None, url = None, error = Some ''No transaction hash''\<rparr>
      | Some r \<Rightarrow>
          (case transactionHash r of
             None \<Rightarrow> \<lparr>success = False, txHash = None, url = None, error = Some ''No transaction hash''\<rparr>
           | Some h \<Rightarrow>
               if h = [] then \<lparr>success = False, txHash = None, url = None, error = Some ''No transaction hash''\<rparr>
               else (let txUrl = ''https://polygonscan.com/tx/'' @ h
                     in if state r = Some ''STATE_FAILED''
                        then \<lparr>success = False, txHash = Some h, url = Some txUrl, error = None\<rparr>
                        else \<lparr>success = True, txHash = Some h, url = Some txUrl, error = None\<rparr>)))"

text \<open>
  The first statement of the asynchronous closure started for one position: the
  transaction is built by the builder for the kind of market.
\<close>

definition buildTx :: "'d encoder \<Rightarrow> Position \<Rightarrow> thrown + 'd Transaction" where
  "buildTx enc pos =
     (if negativeRisk pos
      then createNegRiskRedeemTx enc (conditionId pos)
             (calculateRedeemAmounts (map size' (outcomes pos)))
      else createCtfRedeemTx enc (conditionId pos))"

text \<open>
  The body of the closure. \<open>execute\<close> stands for \<open>client.execute([tx], ...)\<close> under
  its timeout: for the transaction built it tells whether the timer fired first
  (\<open>None\<close>), the call was rejected (\<open>Inl\<close>), or it gave a response, itself given by
  how \<open>response.wait()\<close> settles. Every throw inside the \<open>try\<close> block ends in the
  \<open>catch\<close> block. The value is how the closure's promise settles: \<open>Inr\<close> the
  result object it resolves to, \<open>Inl\<close> the value it is rejected with.
\<close>

definition redeemPosition ::
  "'d encoder \<Rightarrow> ('d Transaction \<Rightarrow> (thrown + (thrown + txResult option)) option) \<Rightarrow> Position \<Rightarrow>
   thrown + RedemptionResult" where
  "redeemPosition enc execute pos =
     (case buildTx enc pos of
        Inl err \<Rightarrow> caught err
      | Inr tx \<Rightarrow>
          (case withTimeout (execute tx) ''Relayer execution timed out'' of
             Inl err \<Rightarrow> caught err
           | Inr response \<Rightarrow>
               (case response of
                  Inl err \<Rightarrow> caught err
                | Inr result \<Rightarrow> Inr (classify result))))"

text \<open>
  The array \<open>results\<close> of the closures' promises, each given by how it settles, in the
  order of the positions. \<open>client i\<close> is the relayer as the closure of position \<open>i\<close>
  meets it.
\<close>

definition results ::
  "'d encoder \<Rightarrow> (nat \<Rightarrow> 'd Transaction \<Rightarrow> (thrown + (thrown + txResult option)) option) \<Rightarrow>
   Position list \<Rightarrow> (thrown + RedemptionResult) list" where
  "results enc client positions =
     map (\<lambda>(i, pos). redeemPosition enc (client i) pos) (enumerate 0 positions)"

text \<open>
  \<open>Promise.all\<close>: resolves to the values of the promises, in order, when all of them
  resolve; is rejected, \<open>None\<close>, as soon as one of them is rejected (with the value of
  the rejection that came first in time, which is not kept here).
\<close>

fun promiseAll :: "(thrown + 'a) list \<Rightarrow> 'a list option" where
  "promiseAll [] = Some []"
| "promiseAll (Inl e # promises) = None"
| "promiseAll (Inr v # promises) =
     (case promiseAll promises of None \<Rightarrow> None | Some vs \<Rightarrow> Some (v # vs))"

definition redemptionResults ::
  "'d encoder \<Rightarrow> (nat \<Rightarrow> 'd Transaction \<Rightarrow> (thrown + (thrown + txResult option)) option) \<Rightarrow>
   Position list \<Rightarrow> RedemptionResult list option" where
  "redemptionResults enc client positions = promiseAll (results enc client positions)"

record MainResult =
  redeemed :: nat
  total :: nat
  transactions :: "string list option"

text \<open>
  The part of \<open>main\<close> from the fetched positions on, outside check mode: the early
  return for no positions (an object without \<open>transactions\<close>), and the aggregate of the
  settled results. \<open>await Promise.all(results)\<close> throws when \<open>Promise.all\<close> is
  rejected; \<open>main\<close> has no handler around it, so its own promise is rejected and no
  aggregate is returned, \<open>None\<close> (the caller logs a fatal error and exits with code 1).
\<close>

definition truthy :: "string option \<Rightarrow> bool" where
  "truthy s = (case s of None \<Rightarrow> False | Some t \<Rightarrow> t \<noteq> [])"

definition mainRedeem ::
  "'d encoder \<Rightarrow> (nat \<Rightarrow> 'd Transaction \<Rightarrow> (thrown + (thrown + txResult option)) option) \<Rightarrow>
   Position list \<Rightarrow> MainResult option" where
  "mainRedeem enc client positions =
     (if length positions = 0 then Some \<lparr>redeemed = 0, total = 0, transactions = None\<rparr>
      else (case redemptionResults enc client positions of
              None \<Rightarrow> None
            | Some settledResults \<Rightarrow>
                (let successCount = length (filter success settledResults);
                     successfulTxs = filter (\<lambda>r. success r \<and> truthy (txHash r)) settledResults
                 in Some \<lparr>redeemed = successCount, total = length positions,
                          transactions = Some (List.map_filter txHash successfulTxs)\<rparr>)))"

text \<open>What the aggregate reports as transaction identifiers: none when the field is absent.\<close>

definition reported :: "MainResult \<Rightarrow> string list" where
  "reported res = (case transactions res of None \<Rightarrow> [] | Some hs \<Rightarrow> hs)"

text \<open>
  The reading of the data model's sentence on \<open>RedemptionResult\<close> under which the
  transaction fields go with \<open>success: true\<close> and the error field with
  \<open>success: false\<close>.
\<close>

definition exclusiveBySuccess :: "RedemptionResult \<Rightarrow> bool" where
  "exclusiveBySuccess r =
     ((success r \<and> txHash r \<noteq> None \<and> url r \<noteq> None \<and> error r = None)
      \<or> (\<not> success r \<and> error r \<noteq> None \<and> txHash r = None \<and> url r = None))"

text \<open>
  Example inputs: an encoder that returns its arguments as the payload, a well-formed
  condition identifier, a binary position, and relayer behaviours.
\<close>

definition sampleEncoder :: "(abiFunction \<times> abiArg list) encoder" where
  "sampleEncoder f args = Inr (f, args)"

definition sampleId :: string where
  "sampleId = ''0x'' @ replicate 64 CHR ''a''"

definition samplePosition :: Position where
  "samplePosition =
     \<lparr>conditionId = sampleId, title = ''M1'', negativeRisk = False,
      outcomes = [\<lparr>outcome = ''YES'', outcomeIndex = 0, size' = 10, value' = 10\<rparr>],
      totalValue = 10, totalSize = 10\<rparr>"

definition settlesWith ::
  "string \<Rightarrow> string \<Rightarrow> 'd Transaction \<Rightarrow> (thrown + (thrown + txResult option)) option" where
  "settlesWith h st tx = Some (Inr (Inr (Some \<lparr>transactionHash = Some h, state = Some st\<rparr>)))"

definition sampleClient ::
  "nat \<Rightarrow> (abiFunction \<times> abiArg list) Transaction \<Rightarrow> (thrown + (thrown + txResult option)) option" where
  "sampleClient i =
     (if i = 0 then settlesWith ''0x01'' ''STATE_CONFIRMED''
      else if i = 1 then (\<lambda>tx. Some (Inl (ErrorObj ''relayer down'')))
      else settlesWith ''0x03'' ''STATE_MINED'')"

text \<open>
  The same relayer, except that the second submission is rejected with \<open>undefined\<close>.
\<close>

definition rejectingClient ::
  "nat \<Rightarrow> (abiFunction \<times> abiArg list) Transaction \<Rightarrow> (thrown + (thrown + txResult option)) option" where
  "rejectingClient i =
     (if i = 0 then settlesWith ''0x01'' ''STATE_CONFIRMED''
      else if i = 1 then (\<lambda>tx. Some (Inl Undefined))
      else settlesWith ''0x03'' ''STATE_MINED'')"

definition sampleNumberToString :: "real \<Rightarrow> string" where
  "sampleNumberToString x = ''0''"

section \<open>Semaphore and redemption loop (src/redeem.ts, identical in redeem.js)\<close>

text \<open>
  The class \<open>Semaphore\<close>. The wait queue holds the resolvers of the pending
  \<open>acquire\<close> promises; a resolver is identified by the loop iteration that waits on it.
\<close>

record Semaphore =
  maxConcurrent :: int
  current :: int
  waitQueue :: "nat list"

text \<open>
  \<open>acquire\<close> either takes a permit and resolves at once (\<open>True\<close>), or queues its
  resolver and stays pending (\<open>False\<close>).
\<close>

definition acquire :: "nat \<Rightarrow> Semaphore \<Rightarrow> bool \<times> Semaphore" where
  "acquire waiter sem =
     (if current sem < maxConcurrent sem then (True, sem\<lparr>current := current sem + 1\<rparr>)
      else (False, sem\<lparr>waitQueue := waitQueue sem @ [waiter]\<rparr>))"

text \<open>
  \<open>release\<close> gives the permit back and, when a resolver is queued, takes the permit
  again for it and calls it. The resolver called is returned.
\<close>

definition release :: "Semaphore \<Rightarrow> nat option \<times> Semaphore" where
  "release sem =
     (let sem1 = sem\<lparr>current := current sem - 1\<rparr>
      in case waitQueue sem1 of
           [] \<Rightarrow> (None, sem1)
         | resolve # rest \<Rightarrow> (Some resolve, sem1\<lparr>current := current sem1 + 1, waitQueue := rest\<rparr>))"

text \<open>
  The redemption loop of \<open>main\<close> as a transition system over the points at which the
  single thread of control can switch between the loop and the closures it started.

  The closure of a position, once started, is awaiting \<open>client.execute\<close>
  (\<open>Executing\<close>), awaiting \<open>response.wait()\<close> after the message "Submitted, waiting
  for confirmation" (\<open>Submitted\<close>), or has returned its result (\<open>Finished\<close>); it runs
  \<open>semaphore.release()\<close> in its \<open>finally\<close> block on the way to \<open>Finished\<close>.

  The loop in iteration \<open>i\<close> is about to call \<open>acquire\<close> (\<open>Acquiring i\<close>), pending on
  a queued resolver (\<open>Waiting i\<close>), resumed with a permit and about to start the closure
  (\<open>Admitted i\<close>), or asleep for the delay between redemptions (\<open>Pausing i\<close>); after
  the last iteration it awaits \<open>Promise.all\<close> (\<open>AwaitingAll\<close>) and then returns.
\<close>

datatype phase = Executing | Submitted | Finished

datatype mainPc = Acquiring nat | Waiting nat | Admitted nat | Pausing nat | AwaitingAll | Returned

record orchestrator =
  semaphore :: Semaphore
  pc :: mainPc
  tasks :: "phase list"
  npositions :: nat

text \<open>
  What can happen next. \<open>MainStart built\<close> starts the closure, which runs up to its first
  \<open>await\<close>: with \<open>built = True\<close> the transaction was built and \<open>client.execute\<close> was
  called; with \<open>built = False\<close> something threw before that first \<open>await\<close> (the builder,
  say) and the closure has finished, release included. \<open>ExecuteFailed\<close> is a rejected or timed-out \<open>client.execute\<close>;
  \<open>Settled\<close> is \<open>response.wait()\<close> resolving or rejecting.
\<close>

datatype event =
    MainAcquire
  | MainStart bool
  | MainResume
  | ExecuteResolved nat
  | ExecuteFailed nat
  | Settled nat
  | AllSettled

definition initial :: "int \<Rightarrow> nat \<Rightarrow> orchestrator" where
  "initial n k =
     \<lparr>semaphore = \<lparr>maxConcurrent = n, current = 0, waitQueue = []\<rparr>,
      pc = (if k = 0 then Returned else Acquiring 0), tasks = [], npositions = k\<rparr>"

text \<open>
  \<open>semaphore.release()\<close> in a closure's \<open>finally\<close> block: the resolver it calls, if
  any, lets the loop iteration that waits on it go on.
\<close>

definition releasePermit :: "orchestrator \<Rightarrow> orchestrator" where
  "releasePermit s =
     (case release (semaphore s) of
        (None, sem) \<Rightarrow> s\<lparr>semaphore := sem\<rparr>
      | (Some waiter, sem) \<Rightarrow>
          s\<lparr>semaphore := sem, pc := (if pc s = Waiting waiter then Admitted waiter else pc s)\<rparr>)"

fun step :: "orchestrator \<Rightarrow> event \<Rightarrow> orchestrator option" where
  "step s MainAcquire =
     (case pc s of
        Acquiring i \<Rightarrow>
          (case acquire i (semaphore s) of
             (True, sem) \<Rightarrow> Some (s\<lparr>semaphore := sem, pc := Admitted i\<rparr>)
           | (False, sem) \<Rightarrow> Some (s\<lparr>semaphore := sem, pc := Waiting i\<rparr>))
      | _ \<Rightarrow> None)"
| "step s (MainStart built) =
     (case pc s of
        Admitted i \<Rightarrow>
          (let s1 = s\<lparr>pc := (if i + 1 < npositions s then Pausing i else AwaitingAll)\<rparr>
           in if built then Some (s1\<lparr>tasks := tasks s1 @ [Executing]\<rparr>)
              else Some (releasePermit (s1\<lparr>tasks := tasks s1 @ [Finished]\<rparr>)))
      | _ \<Rightarrow> None)"
| "step s MainResume =
     (case pc s of Pausing i \<Rightarrow> Some (s\<lparr>pc := Acquiring (i + 1)\<rparr>) | _ \<Rightarrow> None)"
| "step s (ExecuteResolved j) =
     (if j < length (tasks s) \<and> tasks s ! j = Executing
      then Some (s\<lparr>tasks := (tasks s)[j := Submitted]\<rparr>) else None)"
| "step s (ExecuteFailed j) =
     (if j < length (tasks s) \<and> tasks s ! j = Executing
      then Some (releasePermit (s\<lparr>tasks := (tasks s)[j := Finished]\<rparr>)) else None)"
| "step s (Settled j) =
     (if j < length (tasks s) \<and> tasks s ! j = Submitted
      then Some (releasePermit (s\<lparr>tasks := (tasks s)[j := Finished]\<rparr>)) else None)"
| "step s AllSettled =
     (if pc s = AwaitingAll \<and> list_all (\<lambda>p. p = Finished) (tasks s)
      then Some (s\<lparr>pc := Returned\<rparr>) else None)"

fun run :: "orchestrator \<Rightarrow> event list \<Rightarrow> orchestrator option" where
  "run s [] = Some s"
| "run s (e # es) = (case step s e of None \<Rightarrow> None | Some s1 \<Rightarrow> run s1 es)"

text \<open>
  The permits that are out: one for each closure that has not finished, and one for the
  loop when it is admitted and has not started its closure yet.
\<close>

definition holders :: "orchestrator \<Rightarrow> nat" where
  "holders s =
     length (filter (\<lambda>p. p \<noteq> Finished) (tasks s))
     + (case pc s of Admitted i \<Rightarrow> 1 | _ \<Rightarrow> 0)"

definition submitted :: "orchestrator \<Rightarrow> nat" where
  "submitted s = length (filter (\<lambda>p. p = Submitted) (tasks s))"

definition semInv :: "int \<Rightarrow> orchestrator \<Rightarrow> bool" where
  "semInv n s =
     (maxConcurrent (semaphore s) = n
      \<and> current (semaphore s) = int (holders s)
      \<and> current (semaphore s) \<le> n
      \<and> waitQueue (semaphore s) = (case pc s of Waiting i \<Rightarrow> [i] | _ \<Rightarrow> []))"

text \<open>
  An example run with two permits and five positions: two closures are started, the
  third \<open>acquire\<close> has to wait, both submissions go through, and the settlement of the
  first closure hands its permit to the waiting loop.
\<close>

definition sampleEvents :: "event list" where
  "sampleEvents =
     [MainAcquire, MainStart True, MainResume, MainAcquire, MainStart True, MainResume,
      MainAcquire, ExecuteResolved 0, ExecuteResolved 1, Settled 0]"

section \<open>Properties of the rate limiter\<close>

lemma mathMin_Min: "mathMin m xs = Min (set (m # xs))"
proof (induction xs arbitrary: m)
  case Nil
  then show ?case by simp
next
  case (Cons x xs)
  have "Min (set (m # x # xs)) = Min (set (min m x # xs))"
    by (cases "xs = []") (simp_all add: min.assoc Min_insert2 min.commute)
  with Cons show ?case by simp
qed

lemma canMakeRequest_snd:
  "snd (canMakeRequest now rl) = rl\<lparr>requests := prunedRequests now rl\<rparr>"
  by (simp add: canMakeRequest_def prunedRequests_def Let_def)

lemma canMakeRequest_fst:
  "fst (canMakeRequest now rl) =
     (\<not> (burstLimit rl \<le> int (length (prunedRequests now rl))
         \<or> requestsPerMinute rl \<le> int (length (filter (\<lambda>t. now - t < 60000) (prunedRequests now rl)))))"
  by (simp add: canMakeRequest_def prunedRequests_def Let_def)

lemma canMakeRequest_pair:
  "canMakeRequest now rl = (fst (canMakeRequest now rl), rl\<lparr>requests := prunedRequests now rl\<rparr>)"
  using canMakeRequest_snd [of now rl] by (metis prod.collapse)

lemma getTime_nonneg: "0 \<le> fst (getTimeUntilNextRequest now0 now rl)"
  unfolding getTimeUntilNextRequest_def
  by (subst canMakeRequest_pair) (simp add: Let_def split: list.splits bool.splits)

lemma getTime_allowed:
  "fst (canMakeRequest now0 rl) \<Longrightarrow> fst (getTimeUntilNextRequest now0 now rl) = 0"
  unfolding getTimeUntilNextRequest_def
  by (subst canMakeRequest_pair) simp

lemma getTime_snd:
  "snd (getTimeUntilNextRequest now0 now rl) = rl\<lparr>requests := prunedRequests now0 rl\<rparr>"
  unfolding getTimeUntilNextRequest_def
  by (subst canMakeRequest_pair) (simp add: Let_def split: list.splits bool.splits)

lemma getTime_empty:
  "prunedRequests now0 rl = [] \<Longrightarrow> fst (getTimeUntilNextRequest now0 now rl) = 0"
  unfolding getTimeUntilNextRequest_def
  by (subst canMakeRequest_pair) (simp split: bool.splits)

lemma getTime_denied:
  assumes "\<not> fst (canMakeRequest now0 rl)" and "prunedRequests now0 rl \<noteq> []"
  shows "fst (getTimeUntilNextRequest now0 now rl) =
     max 0 (if filter (\<lambda>t. now - t < 60000) (prunedRequests now0 rl) = []
            then windowMs rl - (now - Min (set (prunedRequests now0 rl)))
            else min (windowMs rl - (now - Min (set (prunedRequests now0 rl))))
                     (60000 - (now - Min (set (filter (\<lambda>t. now - t < 60000) (prunedRequests now0 rl))))))"
proof -
  obtain r rs where p: "prunedRequests now0 rl = r # rs"
    using assms(2) by (cases "prunedRequests now0 rl") auto
  show ?thesis
  proof (cases "filter (\<lambda>t. now - t < 60000) (r # rs)")
    case Nil
    then show ?thesis
      unfolding getTimeUntilNextRequest_def
      apply (subst canMakeRequest_pair)
      using assms(1) p by (simp add: Let_def mathMin_Min del: filter.simps)
  next
    case (Cons q qs)
    then show ?thesis
      unfolding getTimeUntilNextRequest_def
      apply (subst canMakeRequest_pair)
      using assms(1) p by (simp add: Let_def mathMin_Min del: filter.simps)
  qed
qed

lemma prunedRequests_update:
  "prunedRequests t (rl\<lparr>requests := xs\<rparr>) = filter (\<lambda>timestamp. t - timestamp < windowMs rl) xs"
  by (simp add: prunedRequests_def)

text \<open>
  While less than the returned time has passed (and nothing was recorded meanwhile), no
  entry has left either window, so a denied request is still denied.
\<close>

lemma still_denied:
  assumes den: "\<not> fst (canMakeRequest now rl)"
    and d0: "0 \<le> d" and d1: "d < fst (getTimeUntilNextRequest now now rl)"
  shows "\<not> fst (canMakeRequest (now + d) (snd (canMakeRequest now rl)))"
proof -
  let ?P = "prunedRequests now rl"
  let ?R = "filter (\<lambda>t. now - t < 60000) ?P"
  have ne: "?P \<noteq> []"
    using d0 d1 getTime_empty [of now rl now] by auto
  have fin: "finite (set ?P)" "set ?P \<noteq> {}" using ne by auto
  note eq = getTime_denied [OF den ne, of now]
  have b: "d < windowMs rl - (now - Min (set ?P))"
    using d1 d0 eq by (auto split: if_splits)
  have keep: "filter (\<lambda>t. now + d - t < windowMs rl) ?P = ?P"
  proof (rule filter_True, intro ballI)
    fix t assume "t \<in> set ?P"
    then have "Min (set ?P) \<le> t" using fin by simp
    then show "now + d - t < windowMs rl" using b by linarith
  qed
  have rec: "filter (\<lambda>t. now + d - t < 60000) ?P = ?R"
  proof (cases "?R = []")
    case True
    then have "\<forall>t \<in> set ?P. \<not> now - t < 60000"
      by (simp add: filter_empty_conv)
    then have "\<forall>t \<in> set ?P. \<not> now + d - t < 60000" using d0 by auto
    then have "filter (\<lambda>t. now + d - t < 60000) ?P = []"
      by (simp add: filter_empty_conv)
    with True show ?thesis by simp
  next
    case False
    then have r: "d < 60000 - (now - Min (set ?R))"
      using d1 d0 eq by (auto split: if_splits)
    have finR: "finite (set ?R)" by simp
    show ?thesis
    proof (rule filter_cong [OF refl])
      fix t assume t: "t \<in> set ?P"
      show "(now + d - t < 60000) = (now - t < 60000)"
      proof
        assume "now + d - t < 60000" then show "now - t < 60000" using d0 by linarith
      next
        assume "now - t < 60000"
        then have tR: "t \<in> set ?R" using t by simp
        have "Min (set ?R) \<le> t" by (rule Min_le [OF finR tR])
        then show "now + d - t < 60000" using r by linarith
      qed
    qed
  qed
  have "fst (canMakeRequest now rl) = fst (canMakeRequest (now + d) (snd (canMakeRequest now rl)))"
    by (simp add: canMakeRequest_fst canMakeRequest_snd prunedRequests_update keep rec)
  then show ?thesis using den by simp
qed

text \<open>
  What holds of the TypeScript class. After the entries older than \<open>windowMs\<close> are
  pruned, a request is denied exactly when the pruned list has at least \<open>burstLimit\<close>
  entries, or at least \<open>requestsPerMinute\<close> of them are younger than 60000 ms. The time
  \<open>getTimeUntilNextRequest\<close> returns is never negative and is 0 when the request is
  allowed. When the request is denied and entries are left, it is the smaller of the time
  until the oldest entry leaves the \<open>windowMs\<close> window and the time until the oldest
  entry of the last 60000 ms leaves that window (only the first when no entry is that
  recent), cut off at 0; and a request made before that time has passed is still denied.
\<close>

lemma rate_limiter_admission:
  "(\<not> fst (canMakeRequest now0 rl)) =
      (burstLimit rl \<le> int (length (prunedRequests now0 rl))
       \<or> requestsPerMinute rl \<le> int (length (filter (\<lambda>t. now0 - t < 60000) (prunedRequests now0 rl))))
   \<and> requests (snd (canMakeRequest now0 rl)) = prunedRequests now0 rl
   \<and> 0 \<le> fst (getTimeUntilNextRequest now0 now rl)
   \<and> (fst (canMakeRequest now0 rl) \<longrightarrow> fst (getTimeUntilNextRequest now0 now rl) = 0)
   \<and> (\<not> fst (canMakeRequest now0 rl) \<and> prunedRequests now0 rl \<noteq> [] \<longrightarrow>
        fst (getTimeUntilNextRequest now0 now rl) =
          max 0 (if filter (\<lambda>t. now - t < 60000) (prunedRequests now0 rl) = []
                 then windowMs rl - (now - Min (set (prunedRequests now0 rl)))
                 else min (windowMs rl - (now - Min (set (prunedRequests now0 rl))))
                          (60000 - (now - Min (set (filter (\<lambda>t. now - t < 60000) (prunedRequests now0 rl)))))))
   \<and> (\<forall>d. \<not> fst (canMakeRequest now0 rl) \<and> 0 \<le> d \<and> d < fst (getTimeUntilNextRequest now0 now0 rl) \<longrightarrow>
        \<not> fst (canMakeRequest (now0 + d) (snd (canMakeRequest now0 rl))))"
proof (intro conjI allI impI)
  show "(\<not> fst (canMakeRequest now0 rl)) =
      (burstLimit rl \<le> int (length (prunedRequests now0 rl))
       \<or> requestsPerMinute rl \<le> int (length (filter (\<lambda>t. now0 - t < 60000) (prunedRequests now0 rl))))"
    by (simp add: canMakeRequest_fst)
  show "requests (snd (canMakeRequest now0 rl)) = prunedRequests now0 rl"
    by (simp add: canMakeRequest_snd)
  show "0 \<le> fst (getTimeUntilNextRequest now0 now rl)"
    by (rule getTime_nonneg)
  show "fst (getTimeUntilNextRequest now0 now rl) = 0" if "fst (canMakeRequest now0 rl)"
    using that by (rule getTime_allowed)
  show "fst (getTimeUntilNextRequest now0 now rl) =
          max 0 (if filter (\<lambda>t. now - t < 60000) (prunedRequests now0 rl) = []
                 then windowMs rl - (now - Min (set (prunedRequests now0 rl)))
                 else min (windowMs rl - (now - Min (set (prunedRequests now0 rl))))
                          (60000 - (now - Min (set (filter (\<lambda>t. now - t < 60000) (prunedRequests now0 rl))))))"
    if "\<not> fst (canMakeRequest now0 rl) \<and> prunedRequests now0 rl \<noteq> []"
    using that getTime_denied by blast
  show "\<not> fst (canMakeRequest (now0 + d) (snd (canMakeRequest now0 rl)))"
    if "\<not> fst (canMakeRequest now0 rl) \<and> 0 \<le> d \<and> d < fst (getTimeUntilNextRequest now0 now0 rl)" for d
    using that still_denied by blast
qed

text \<open>
  The JavaScript class computes the same two clear times and returns their minimum as it
  is: when the request is denied and entries are left, the TypeScript result is the
  JavaScript result cut off at 0.
\<close>

lemma getTime_js_denied:
  assumes "\<not> fst (canMakeRequest now0 rl)" and "prunedRequests now0 rl \<noteq> []"
  shows "\<exists>d. fst (getTimeUntilNextRequest_js now0 now rl) = Some d
           \<and> fst (getTimeUntilNextRequest now0 now rl) = max 0 d"
proof -
  obtain r rs where p: "prunedRequests now0 rl = r # rs"
    using assms(2) by (cases "prunedRequests now0 rl") auto
  show ?thesis
  proof (cases "filter (\<lambda>t. now - t < 60000) (r # rs)")
    case Nil
    then show ?thesis
      unfolding getTimeUntilNextRequest_def getTimeUntilNextRequest_js_def
      apply (subst canMakeRequest_pair)
      apply (subst (2) canMakeRequest_pair)
      using assms(1) p by (simp add: Let_def del: filter.simps)
  next
    case (Cons q qs)
    then show ?thesis
      unfolding getTimeUntilNextRequest_def getTimeUntilNextRequest_js_def
      apply (subst canMakeRequest_pair)
      apply (subst (2) canMakeRequest_pair)
      using assms(1) p by (simp add: Let_def del: filter.simps)
  qed
qed

lemmas limiter_eval =
  sampleLimiter_def canMakeRequest_def getTimeUntilNextRequest_def getTimeUntilNextRequest_js_def
  waitForNextRequest_def executeWithRateLimit_def recordRequest_def Let_def

text \<open>
  C5. The denial rule of the claim is the rule of \<open>canMakeRequest\<close> (the lemma
  \<open>rate_limiter_admission\<close>). The time returned on denial is not the time until the
  request is allowed, which the method's comment says it is, but the time until the
  first entry leaves one of the two windows, whether or not that ends the denial. On the
  example limiter, asked at 110000: the request is denied for the burst limit, whose
  window the older entry leaves only after 60000 ms; the method returns 1000, the time
  until that entry leaves the 60-second window; after 1000 ms the request is still
  denied, and \<open>executeWithRateLimit\<close>, which waits once, goes on and records a third
  request within the window of a burst limit of 2. The JavaScript class returns the same
  1000 there; and as it does not cut off at 0, it returns a negative time when the clock
  moves on between its two readings: -2 for a burst limit of 1, one request at 0, and
  the readings 59999 and 60002.
\<close>

theorem rate_limiter_wait_too_short:
  "\<not> fst (canMakeRequest 110000 sampleLimiter)
   \<and> fst (getTimeUntilNextRequest 110000 110000 sampleLimiter) = 1000
   \<and> \<not> fst (canMakeRequest (110000 + 1000) (snd (canMakeRequest 110000 sampleLimiter)))
   \<and> \<not> fst (canMakeRequest (110000 + 59999) (snd (canMakeRequest 110000 sampleLimiter)))
   \<and> fst (canMakeRequest (110000 + 60000) (snd (canMakeRequest 110000 sampleLimiter)))
   \<and> effects (executeWithRateLimit (Inr ()) 110000 110000 111000 sampleLimiter) =
       [Slept 1000, Invoked, Recorded 111000, ReturnedResult]
   \<and> requests (limiter (executeWithRateLimit (Inr ()) 110000 110000 111000 sampleLimiter)) =
       [50000, 51000, 111000]
   \<and> fst (getTimeUntilNextRequest_js 110000 110000 sampleLimiter) = Some 1000
   \<and> fst (getTimeUntilNextRequest_js 59999 60002
        \<lparr>requestsPerMinute = 30, burstLimit = 1, windowMs = 60000, requests = [0]\<rparr>) = Some (- 2)"
  by (simp add: limiter_eval)

text \<open>
  C8. \<open>executeWithRateLimit\<close> first waits as \<open>waitForNextRequest\<close> tells it to (it
  sleeps for the time \<open>getTimeUntilNextRequest\<close> returns when that is positive), then
  invokes the operation, then records exactly one timestamp, and only then returns the
  operation's result or throws the very value the operation threw. Whether the operation
  returned or threw, the limiter is left with the entries that were left by the
  admission check followed by the one new timestamp.
\<close>

theorem executeWithRateLimit_composes:
  "answer (executeWithRateLimit fn now0 now tdone rl) = fn
   \<and> effects (executeWithRateLimit fn now0 now tdone rl) =
       (if 0 < fst (getTimeUntilNextRequest now0 now rl)
        then [Slept (fst (getTimeUntilNextRequest now0 now rl))] else [])
       @ [Invoked, Recorded tdone, if isl fn then ThrewError else ReturnedResult]
   \<and> filter isRecorded (effects (executeWithRateLimit fn now0 now tdone rl)) = [Recorded tdone]
   \<and> requests (limiter (executeWithRateLimit fn now0 now tdone rl)) = prunedRequests now0 rl @ [tdone]
   \<and> length (requests (limiter (executeWithRateLimit fn now0 now tdone rl))) =
       length (prunedRequests now0 rl) + 1"
proof -
  have w: "waitForNextRequest now0 now rl =
      (if 0 < fst (getTimeUntilNextRequest now0 now rl)
       then Some (fst (getTimeUntilNextRequest now0 now rl)) else None,
       rl\<lparr>requests := prunedRequests now0 rl\<rparr>)"
    using getTime_snd [of now0 now rl]
    by (cases "getTimeUntilNextRequest now0 now rl") (simp add: waitForNextRequest_def)
  show ?thesis
    unfolding executeWithRateLimit_def w
    by (cases fn) (simp_all add: recordRequest_def isRecorded_def Let_def)
qed

text \<open>
  On the example limiter, asked at 110000 with an operation that throws \<open>undefined\<close>:
  the call sleeps for 1000 ms, invokes the operation, records the request at 111000 and
  then throws \<open>undefined\<close>.
\<close>

theorem executeWithRateLimit_composes_witness:
  "answer (executeWithRateLimit (Inl Undefined :: thrown + unit) 110000 110000 111000 sampleLimiter) =
     Inl Undefined
   \<and> effects (executeWithRateLimit (Inl Undefined :: thrown + unit) 110000 110000 111000 sampleLimiter) =
     [Slept 1000, Invoked, Recorded 111000, ThrewError]
   \<and> requests (limiter (executeWithRateLimit (Inl Undefined :: thrown + unit) 110000 110000 111000
        sampleLimiter)) = [50000, 51000, 111000]"
proof -
  have g: "fst (getTimeUntilNextRequest 110000 110000 sampleLimiter) = 1000"
    by (simp add: limiter_eval)
  have p: "prunedRequests 110000 sampleLimiter = [50000, 51000]"
    by (simp add: prunedRequests_def sampleLimiter_def)
  show ?thesis
    using executeWithRateLimit_composes
      [of "Inl Undefined :: thrown + unit" 110000 110000 111000 sampleLimiter]
    by (simp add: g p)
qed

section \<open>Properties of the retry policy\<close>

declare retryLoop.simps [simp del]

lemma retryLoop_success:
  assumes "fn (c + k) = Inr v" and "int (a + k) \<le> maxRetries"
    and "\<forall>j<k. isl (fn (c + j))"
  shows "retryLoop fn maxRetries baseDelay a le sl c =
     \<lparr>settled = Inr v, delays = sl @ map (backoffDelay baseDelay) [a..<a + k], calls = c + k + 1\<rparr>"
  using assms
proof (induction k arbitrary: a le sl c)
  case 0
  then show ?case by (subst retryLoop.simps) simp
next
  case (Suc k)
  from Suc.prems(3) have "isl (fn (c + 0))" by blast
  then obtain e where e: "fn c = Inl e" by (cases "fn c") auto
  have lt: "int a < maxRetries" using Suc.prems(2) by simp
  have ih: "retryLoop fn maxRetries baseDelay (a + 1) (Some (toError e))
      (sl @ [backoffDelay baseDelay a]) (c + 1) =
     \<lparr>settled = Inr v, delays = (sl @ [backoffDelay baseDelay a]) @ map (backoffDelay baseDelay) [a + 1..<a + 1 + k],
       calls = c + 1 + k + 1\<rparr>"
  proof (rule Suc.IH)
    show "fn (c + 1 + k) = Inr v" using Suc.prems(1) by simp
    show "int (a + 1 + k) \<le> maxRetries" using Suc.prems(2) by simp
    show "\<forall>j<k. isl (fn (c + 1 + j))"
    proof (intro allI impI)
      fix j assume "j < k"
      then have "isl (fn (c + Suc j))" using Suc.prems(3) by blast
      then show "isl (fn (c + 1 + j))" by simp
    qed
  qed
  have up: "[a..<a + Suc k] = a # [a + 1..<a + 1 + k]"
    by (simp add: upt_conv_Cons)
  have step: "retryLoop fn maxRetries baseDelay a le sl c =
      retryLoop fn maxRetries baseDelay (a + 1) (Some (toError e))
        (sl @ [backoffDelay baseDelay a]) (c + 1)"
    apply (subst retryLoop.simps)
    using lt e by (simp add: Let_def backoffDelay_def)
  show ?case
    unfolding step ih up by (simp del: upt_Suc)
qed

lemma retryLoop_exhausted:
  assumes "int (a + k) = maxRetries" and "\<forall>j\<le>k. isl (fn (c + j))"
  shows "retryLoop fn maxRetries baseDelay a le sl c =
     \<lparr>settled = Inl (toError (projl (fn (c + k)))),
       delays = sl @ map (backoffDelay baseDelay) [a..<a + k], calls = c + k + 1\<rparr>"
  using assms
proof (induction k arbitrary: a le sl c)
  case 0
  then have "isl (fn c)" by simp
  then obtain e where e: "fn c = Inl e" by (cases "fn c") auto
  show ?case
    apply (subst retryLoop.simps)
    using 0 e by (simp add: Let_def)
next
  case (Suc k)
  from Suc.prems(2) have "isl (fn (c + 0))" by blast
  then obtain e where e: "fn c = Inl e" by (cases "fn c") auto
  have lt: "int a < maxRetries" using Suc.prems(1) by simp
  have ih: "retryLoop fn maxRetries baseDelay (a + 1) (Some (toError e))
      (sl @ [backoffDelay baseDelay a]) (c + 1) =
     \<lparr>settled = Inl (toError (projl (fn (c + 1 + k)))),
       delays = (sl @ [backoffDelay baseDelay a]) @ map (backoffDelay baseDelay) [a + 1..<a + 1 + k],
       calls = c + 1 + k + 1\<rparr>"
  proof (rule Suc.IH)
    show "int (a + 1 + k) = maxRetries" using Suc.prems(1) by simp
    show "\<forall>j\<le>k. isl (fn (c + 1 + j))"
    proof (intro allI impI)
      fix j assume "j \<le> k"
      then have "isl (fn (c + Suc j))" using Suc.prems(2) by (meson Suc_le_mono)
      then show "isl (fn (c + 1 + j))" by simp
    qed
  qed
  have up: "[a..<a + Suc k] = a # [a + 1..<a + 1 + k]"
    by (simp add: upt_conv_Cons)
  have step: "retryLoop fn maxRetries baseDelay a le sl c =
      retryLoop fn maxRetries baseDelay (a + 1) (Some (toError e))
        (sl @ [backoffDelay baseDelay a]) (c + 1)"
    apply (subst retryLoop.simps)
    using lt e by (simp add: Let_def backoffDelay_def)
  show ?case
    unfolding step ih up by (simp del: upt_Suc)
qed

text \<open>
  The contract of the TypeScript function. For a retry budget \<open>maxRetries \<ge> 0\<close>,
  \<open>retryWithBackoff\<close> of utils.ts invokes the operation at most \<open>maxRetries + 1\<close>
  times; the delays it sleeps are, in order, \<open>min (baseDelay * multiplier ^ k) maxDelay\<close>
  for the attempts \<open>k = 0, 1, ...\<close> that failed before the last invocation, with nothing
  added; when every attempt fails it has made \<open>maxRetries + 1\<close> invocations and throws
  the error of the last one (as an \<open>Error\<close> object: a thrown value that is not one is
  wrapped); and the first attempt that succeeds ends the run with its value, whatever
  the earlier errors were.
\<close>

theorem retryWithBackoff_contract:
  assumes "0 \<le> maxRetries"
  shows "calls (retryWithBackoff fn maxRetries baseDelay) \<le> nat maxRetries + 1
    \<and> delays (retryWithBackoff fn maxRetries baseDelay) =
        map (\<lambda>k. min (baseDelay * backoffMultiplier ^ k) maxBackoffTime)
          [0..<calls (retryWithBackoff fn maxRetries baseDelay) - 1]
    \<and> ((\<forall>k. int k \<le> maxRetries \<longrightarrow> isl (fn k)) \<longrightarrow>
          settled (retryWithBackoff fn maxRetries baseDelay) = Inl (toError (projl (fn (nat maxRetries))))
          \<and> calls (retryWithBackoff fn maxRetries baseDelay) = nat maxRetries + 1)
    \<and> (\<forall>k v. int k \<le> maxRetries \<and> fn k = Inr v \<and> (\<forall>j<k. isl (fn j)) \<longrightarrow>
          settled (retryWithBackoff fn maxRetries baseDelay) = Inr v
          \<and> calls (retryWithBackoff fn maxRetries baseDelay) = k + 1)"
proof -
  let ?r = "retryWithBackoff fn maxRetries baseDelay"
  have bd: "backoffDelay baseDelay = (\<lambda>k. min (baseDelay * backoffMultiplier ^ k) maxBackoffTime)"
    by (rule ext) (simp add: backoffDelay_def)
  have succ: "?r = \<lparr>settled = Inr v, delays = map (backoffDelay baseDelay) [0..<k], calls = k + 1\<rparr>"
    if "int k \<le> maxRetries" "fn k = Inr v" "\<forall>j<k. isl (fn j)" for k v
    unfolding retryWithBackoff_def
    using retryLoop_success [of fn 0 k v 0 maxRetries baseDelay None "[]"] that by simp
  have exh: "?r = \<lparr>settled = Inl (toError (projl (fn (nat maxRetries)))),
        delays = map (backoffDelay baseDelay) [0..<nat maxRetries], calls = nat maxRetries + 1\<rparr>"
    if "\<forall>k. int k \<le> maxRetries \<longrightarrow> isl (fn k)"
    unfolding retryWithBackoff_def
    using retryLoop_exhausted [of 0 "nat maxRetries" maxRetries fn 0 baseDelay None "[]"] that assms
    by simp
  have both: "calls ?r \<le> nat maxRetries + 1 \<and>
      delays ?r = map (backoffDelay baseDelay) [0..<calls ?r - 1]"
  proof (cases "\<forall>k. int k \<le> maxRetries \<longrightarrow> isl (fn k)")
    case True
    then show ?thesis by (simp add: exh)
  next
    case False
    then have ex: "\<exists>k. int k \<le> maxRetries \<and> \<not> isl (fn k)" by blast
    define k where "k = (LEAST k. int k \<le> maxRetries \<and> \<not> isl (fn k))"
    have k: "int k \<le> maxRetries \<and> \<not> isl (fn k)"
      unfolding k_def using ex by (rule LeastI_ex)
    have before: "\<forall>j<k. isl (fn j)"
    proof (intro allI impI)
      fix j assume j: "j < k"
      then have "\<not> (int j \<le> maxRetries \<and> \<not> isl (fn j))"
        unfolding k_def by (rule not_less_Least)
      moreover have "int j \<le> maxRetries" using j k by linarith
      ultimately show "isl (fn j)" by blast
    qed
    obtain v where v: "fn k = Inr v" using k by (cases "fn k") auto
    have "?r = \<lparr>settled = Inr v, delays = map (backoffDelay baseDelay) [0..<k], calls = k + 1\<rparr>"
      using succ k v before by blast
    moreover have "k \<le> nat maxRetries" using k by linarith
    ultimately show ?thesis by simp
  qed
  show ?thesis
  proof (intro conjI allI impI)
    show "calls ?r \<le> nat maxRetries + 1" using both by simp
    show "delays ?r = map (\<lambda>k. min (baseDelay * backoffMultiplier ^ k) maxBackoffTime) [0..<calls ?r - 1]"
      using both by (simp add: bd)
    show "settled ?r = Inl (toError (projl (fn (nat maxRetries))))"
      if "\<forall>k. int k \<le> maxRetries \<longrightarrow> isl (fn k)"
      using exh [OF that] by simp
    show "calls ?r = nat maxRetries + 1"
      if "\<forall>k. int k \<le> maxRetries \<longrightarrow> isl (fn k)"
      using exh [OF that] by simp
    show "settled ?r = Inr v"
      if "int k \<le> maxRetries \<and> fn k = Inr v \<and> (\<forall>j<k. isl (fn j))" for k v
      using succ [of k v] that by simp
    show "calls ?r = k + 1"
      if "int k \<le> maxRetries \<and> fn k = Inr v \<and> (\<forall>j<k. isl (fn j))" for k v
      using succ [of k v] that by simp
  qed
qed


text \<open>
  An operation that fails twice and then returns 7, with a budget of 3 retries and a base
  delay of 1000 ms; and one that always throws the string \<open>x\<close>, with a budget of 1.
\<close>

theorem retryWithBackoff_contract_witness:
  "(0::int) \<le> 3
   \<and> settled (retryWithBackoff (\<lambda>k. if k < 2 then Inl (ErrorObj ''down'') else Inr (7::int)) 3 1000) = Inr 7
   \<and> calls (retryWithBackoff (\<lambda>k. if k < 2 then Inl (ErrorObj ''down'') else Inr (7::int)) 3 1000) = 3
   \<and> delays (retryWithBackoff (\<lambda>k. if k < 2 then Inl (ErrorObj ''down'') else Inr (7::int)) 3 1000) = [1000, 2000]
   \<and> settled (retryWithBackoff (\<lambda>k. Inl (NonError ''x'') :: thrown + int) 1 1000) = Inl (ErrorObj ''x'')
   \<and> calls (retryWithBackoff (\<lambda>k. Inl (NonError ''x'') :: thrown + int) 1 1000) = 2"
proof -
  let ?f = "\<lambda>k::nat. if k < 2 then Inl (ErrorObj ''down'') else Inr (7::int)"
  let ?g = "\<lambda>k::nat. Inl (NonError ''x'') :: thrown + int"
  have h3: "(0::int) \<le> 3" and h1: "(0::int) \<le> 1" by simp_all
  note tf = retryWithBackoff_contract [OF h3, of ?f 1000]
  note tg = retryWithBackoff_contract [OF h1, of ?g 1000]
  have f: "settled (retryWithBackoff ?f 3 1000) = Inr 7 \<and> calls (retryWithBackoff ?f 3 1000) = 2 + 1"
    by (rule tf [THEN conjunct2, THEN conjunct2, THEN conjunct2, rule_format, of 2 7]) simp
  have d: "delays (retryWithBackoff ?f 3 1000) = [1000, 2000]"
  proof -
    have u: "[0..<(2::nat)] = [0, 1]" by code_simp
    show ?thesis
      using tf [THEN conjunct2, THEN conjunct1] f
      by (simp add: backoffMultiplier_def maxBackoffTime_def u)
  qed
  have g: "settled (retryWithBackoff ?g 1 1000) = Inl (toError (projl (?g (nat 1))))
      \<and> calls (retryWithBackoff ?g 1 1000) = nat 1 + 1"
    by (rule tg [THEN conjunct2, THEN conjunct2, THEN conjunct1, rule_format]) simp
  show ?thesis using f d g by simp
qed

text \<open>
  The JavaScript function runs as the TypeScript one does, up to the wrapping of the
  thrown value, as long as the operation throws neither \<open>null\<close> nor \<open>undefined\<close>.
\<close>

declare retryLoop_js.simps [simp del]

lemma retryLoop_js_agrees:
  assumes "\<And>k e. fn k = Inl e \<Longrightarrow> \<not> isNullish e" and "int a \<le> maxRetries"
  shows "retryLoop fn maxRetries baseDelay a le sl c =
         asTypeScriptRun (retryLoop_js fn maxRetries baseDelay a sl c)"
  using assms(2)
proof (induction "nat (maxRetries - int a)" arbitrary: a le sl c)
  case 0
  then have eq: "int a = maxRetries" by linarith
  show ?case
    apply (subst retryLoop.simps)
    apply (subst retryLoop_js.simps)
    using eq by (cases "fn c") (simp_all add: asTypeScriptRun_def Let_def)
next
  case (Suc n)
  then have lt: "int a < maxRetries" and n: "n = nat (maxRetries - int (a + 1))"
    and le1: "int (a + 1) \<le> maxRetries" by linarith+
  show ?case
  proof (cases "fn c")
    case (Inr v)
    then show ?thesis
      apply (subst retryLoop.simps)
      apply (subst retryLoop_js.simps)
      using lt by (simp add: asTypeScriptRun_def)
  next
    case (Inl e)
    then have ne: "\<not> isNullish e" using assms(1) by blast
    have ts: "retryLoop fn maxRetries baseDelay a le sl c =
        retryLoop fn maxRetries baseDelay (a + 1) (Some (toError e))
          (sl @ [min (baseDelay * backoffMultiplier ^ a) maxBackoffTime]) (c + 1)"
      apply (subst retryLoop.simps)
      using lt Inl by (simp add: Let_def)
    have js: "retryLoop_js fn maxRetries baseDelay a sl c =
        retryLoop_js fn maxRetries baseDelay (a + 1)
          (sl @ [min (baseDelay * backoffMultiplier ^ a) maxBackoffTime]) (c + 1)"
      apply (subst retryLoop_js.simps)
      using lt Inl ne by (simp add: Let_def)
    show ?thesis
      unfolding ts js by (rule Suc.hyps(1) [OF n le1])
  qed
qed

lemma retryWithBackoff_js_agrees:
  assumes "\<And>k e. fn k = Inl e \<Longrightarrow> \<not> isNullish e"
  shows "retryWithBackoff fn maxRetries baseDelay =
         asTypeScriptRun (retryWithBackoff_js fn maxRetries baseDelay)"
proof (cases "0 \<le> maxRetries")
  case True
  then show ?thesis
    unfolding retryWithBackoff_def retryWithBackoff_js_def
    using retryLoop_js_agrees [where fn = fn and a = 0 and le = None and sl = "[]" and c = 0] assms
    by simp
next
  case False
  then show ?thesis
    unfolding retryWithBackoff_def retryWithBackoff_js_def
    apply (subst retryLoop.simps)
    apply (subst retryLoop_js.simps)
    by (simp add: asTypeScriptRun_def)
qed

text \<open>
  C7. The retry contract holds of the TypeScript function (\<open>retryWithBackoff_contract\<close>)
  and, for operations that throw neither \<open>null\<close> nor \<open>undefined\<close>, of the JavaScript
  one. An operation that throws \<open>undefined\<close> is not retried by the JavaScript function:
  with a budget of 3 retries and a base delay of 1000 ms, the operation that throws
  \<open>undefined\<close> once and would then return 7 is invoked once, no delay is slept, and the
  call fails with a \<open>TypeError\<close> of the \<open>catch\<close> block, which is not the error the
  operation threw. The TypeScript function sleeps 1000 ms, invokes the operation again
  and returns 7. An operation that always throws \<open>null\<close> likewise fails after one
  invocation instead of four, with the \<open>TypeError\<close> instead of \<open>null\<close>.
\<close>

theorem retryWithBackoff_js_nullish_not_retried:
  "retryWithBackoff_js throwsUndefinedOnce 3 1000 =
     \<lparr>settled = Inl (ErrorObj ''Cannot read properties of undefined (reading 'message')''),
      delays = [], calls = 1\<rparr>
   \<and> retryWithBackoff throwsUndefinedOnce 3 1000 =
     \<lparr>settled = Inr 7, delays = [1000], calls = 2\<rparr>
   \<and> retryWithBackoff_js (\<lambda>k. Inl Null :: thrown + int) 3 1000 =
     \<lparr>settled = Inl (ErrorObj ''Cannot read properties of null (reading 'message')''),
      delays = [], calls = 1\<rparr>
   \<and> retryWithBackoff (\<lambda>k. Inl Null :: thrown + int) 3 1000 =
     \<lparr>settled = Inl (ErrorObj ''null''), delays = [1000, 2000, 4000], calls = 4\<rparr>"
  by (simp add: retryWithBackoff_js_def retryWithBackoff_def retryLoop_js.simps retryLoop.simps
      throwsUndefinedOnce_def isNullish_def typeErrorReading_def backoffMultiplier_def
      maxBackoffTime_def Let_def)

section \<open>Properties of the grouping\<close>

lemma firstAppearances_set: "set (firstAppearances xs) = set xs"
  by (induction xs) auto

lemma firstAppearances_distinct: "distinct (firstAppearances xs)"
  by (induction xs) auto

lemma firstAppearances_snoc:
  "firstAppearances (xs @ [x]) =
     (if x \<in> set xs then firstAppearances xs else firstAppearances xs @ [x])"
  by (induction xs) (auto simp: firstAppearances_set)

lemma groupOf_snoc_other:
  "cidOf pos \<noteq> cid \<Longrightarrow> groupOf (valid @ [pos]) cid = groupOf valid cid"
  by (simp add: groupOf_def)

lemma groupOf_snoc_new:
  assumes "cidOf pos = cid" and "filter (\<lambda>p. cidOf p = cid) valid = []"
  shows "groupOf (valid @ [pos]) cid =
     \<lparr>conditionId = cid, title = stringOr (raw_title pos) ''Unknown Market'',
      negativeRisk = toBoolean (raw_negativeRisk pos),
      outcomes = [toOutcome pos],
      totalValue = 0 + value' (toOutcome pos),
      totalSize = 0 + size' (toOutcome pos)\<rparr>"
  using assms by (simp add: groupOf_def toOutcome_def)

lemma groupOf_snoc_same:
  assumes "cidOf pos = cid" and "filter (\<lambda>p. cidOf p = cid) valid \<noteq> []"
  shows "groupOf (valid @ [pos]) cid =
     (groupOf valid cid)\<lparr>outcomes := outcomes (groupOf valid cid) @ [toOutcome pos],
        totalValue := totalValue (groupOf valid cid) + value' (toOutcome pos),
        totalSize := totalSize (groupOf valid cid) + size' (toOutcome pos)\<rparr>"
proof -
  obtain m ms where m: "filter (\<lambda>p. cidOf p = cid) valid = m # ms"
    using assms(2) by (cases "filter (\<lambda>p. cidOf p = cid) valid") auto
  show ?thesis
    using assms(1) by (simp add: groupOf_def m toOutcome_def)
qed

lemma groupStep_invalid:
  "\<not> validPosition pos \<Longrightarrow> groupStep (m, skipped) pos = (m, skipped @ [pos])"
  by (auto simp: groupStep_def validPosition_def split: option.splits)

lemma mapHas_groupsAfter: "mapHas (groupsAfter valid) cid = (cid \<in> cidOf ` set valid)"
  by (simp add: mapHas_def groupsAfter_def firstAppearances_set comp_def)

lemma map_of_groupsAfter:
  "cid \<in> cidOf ` set valid \<Longrightarrow> map_of (groupsAfter valid) cid = Some (groupOf valid cid)"
  unfolding groupsAfter_def
  by (rule map_of_is_SomeI)
     (auto simp: comp_def firstAppearances_distinct firstAppearances_set)

lemma map_of_groupsAfter_None:
  "cid \<notin> cidOf ` set valid \<Longrightarrow> map_of (groupsAfter valid) cid = None"
  by (simp add: map_of_eq_None_iff groupsAfter_def firstAppearances_set image_comp comp_def)

lemma filter_cid_empty: "(filter (\<lambda>p. cidOf p = cid) valid = []) = (cid \<notin> cidOf ` set valid)"
  by (auto simp: filter_empty_conv)

lemma groupsAfter_snoc_new:
  assumes "cidOf pos = cid" and "cid \<notin> cidOf ` set valid"
  shows "groupsAfter (valid @ [pos]) = groupsAfter valid @ [(cid, groupOf (valid @ [pos]) cid)]"
proof -
  have "map (\<lambda>c. (c, groupOf (valid @ [pos]) c)) (firstAppearances (map cidOf valid)) =
        map (\<lambda>c. (c, groupOf valid c)) (firstAppearances (map cidOf valid))"
  proof (rule map_cong [OF refl])
    fix c assume "c \<in> set (firstAppearances (map cidOf valid))"
    then have "c \<in> cidOf ` set valid" by (simp add: firstAppearances_set)
    then have "cidOf pos \<noteq> c" using assms by auto
    then show "(c, groupOf (valid @ [pos]) c) = (c, groupOf valid c)"
      by (simp add: groupOf_snoc_other)
  qed
  then show ?thesis
    using assms by (simp add: groupsAfter_def firstAppearances_snoc)
qed

lemma groupsAfter_snoc_same:
  assumes "cidOf pos = cid" and "cid \<in> cidOf ` set valid"
  shows "groupsAfter (valid @ [pos]) =
     map (\<lambda>(k1, v1). if k1 = cid then (k1, groupOf (valid @ [pos]) cid) else (k1, v1))
       (groupsAfter valid)"
proof -
  have "map (\<lambda>c. (c, groupOf (valid @ [pos]) c)) (firstAppearances (map cidOf valid)) =
        map (\<lambda>c. if c = cid then (c, groupOf (valid @ [pos]) cid)
                  else (c, groupOf valid c)) (firstAppearances (map cidOf valid))"
    by (rule map_cong [OF refl]) (use assms(1) in \<open>auto simp: groupOf_snoc_other\<close>)
  then show ?thesis
    using assms by (simp add: groupsAfter_def firstAppearances_snoc comp_def)
qed

lemma mapSet_new: "\<not> mapHas m k \<Longrightarrow> mapSet m k v = m @ [(k, v)]"
  by (simp add: mapSet_def)

lemma mapSet_present:
  "mapHas m k \<Longrightarrow> mapSet m k v = map (\<lambda>(k1, v1). if k1 = k then (k1, v) else (k1, v1)) m"
  by (simp add: mapSet_def)

lemma mapGet_snoc: "\<not> mapHas m k \<Longrightarrow> mapGet (m @ [(k, v)]) k = Some v"
proof -
  assume "\<not> mapHas m k"
  then have "map_of m k = None"
    by (simp add: mapHas_def map_of_eq_None_iff)
  then show ?thesis
    by (simp add: mapGet_def map_add_def)
qed

lemma mapSet_snoc: "\<not> mapHas m k \<Longrightarrow> mapSet (m @ [(k, v)]) k w = m @ [(k, w)]"
proof -
  assume h: "\<not> mapHas m k"
  have "map (\<lambda>(k1, v1). if k1 = k then (k1, w) else (k1, v1)) m = m"
  proof (rule map_idI)
    fix x assume "x \<in> set m"
    then have "fst x \<noteq> k" using h by (auto simp: mapHas_def)
    then show "(case x of (k1, v1) \<Rightarrow> if k1 = k then (k1, w) else (k1, v1)) = x"
      by (cases x) simp
  qed
  then show ?thesis by (simp add: mapSet_def mapHas_def)
qed

lemma groupStep_valid:
  assumes v: "validPosition pos"
  shows "groupStep (groupsAfter valid, skipped) pos = (groupsAfter (valid @ [pos]), skipped)"
proof -
  obtain cid where c: "raw_conditionId pos = Some cid" "cid \<noteq> []" "isValidBytes32 cid"
    using v by (auto simp: validPosition_def split: option.splits)
  have co: "cidOf pos = cid" using c by (simp add: cidOf_def)
  show ?thesis
  proof (cases "cid \<in> cidOf ` set valid")
    case True
    then have ne: "filter (\<lambda>p. cidOf p = cid) valid \<noteq> []"
      by (simp add: filter_cid_empty)
    have has: "mapHas (groupsAfter valid) cid"
      using True by (simp add: mapHas_groupsAfter)
    have get: "mapGet (groupsAfter valid) cid = Some (groupOf valid cid)"
      using True by (simp add: mapGet_def map_of_groupsAfter)
    have "groupStep (groupsAfter valid, skipped) pos =
        (mapSet (groupsAfter valid) cid (groupOf (valid @ [pos]) cid), skipped)"
      using c by (simp add: groupStep_def has get groupOf_snoc_same [OF co ne] Let_def)
    also have "\<dots> = (groupsAfter (valid @ [pos]), skipped)"
      by (simp add: groupsAfter_snoc_same [OF co True] mapSet_present [OF has])
    finally show ?thesis .
  next
    case False
    then have em: "filter (\<lambda>p. cidOf p = cid) valid = []"
      by (simp add: filter_cid_empty)
    have has: "\<not> mapHas (groupsAfter valid) cid"
      using False by (simp add: mapHas_groupsAfter)
    have "groupStep (groupsAfter valid, skipped) pos =
        (groupsAfter valid @ [(cid, groupOf (valid @ [pos]) cid)], skipped)"
      using c
      by (simp add: groupStep_def has mapSet_new [OF has] mapGet_snoc [OF has] mapSet_snoc [OF has]
          groupOf_snoc_new [OF co em] Let_def)
    also have "\<dots> = (groupsAfter (valid @ [pos]), skipped)"
      by (simp add: groupsAfter_snoc_new [OF co False])
    finally show ?thesis .
  qed
qed

lemma foldl_groupStep:
  "foldl groupStep ([], []) positions =
     (groupsAfter (filter validPosition positions), filter (\<lambda>pos. \<not> validPosition pos) positions)"
proof (induction positions rule: rev_induct)
  case Nil
  then show ?case by (simp add: groupsAfter_def)
next
  case (snoc pos positions)
  then show ?case
    by (cases "validPosition pos") (simp_all add: groupStep_valid groupStep_invalid)
qed

lemma groupByCondition_eq:
  "groupByCondition positions =
     (groupedPositions positions, filter (\<lambda>pos. \<not> validPosition pos) positions)"
  by (simp add: groupByCondition_def foldl_groupStep mapValues_def groupsAfter_def
      groupedPositions_def comp_def Let_def)

lemma valid_cidOf:
  "validPosition pos \<Longrightarrow> (cidOf pos = cid) = (raw_conditionId pos = Some cid)"
  by (auto simp: validPosition_def cidOf_def split: option.splits)

lemma filter_valid_cid:
  "filter (\<lambda>pos. cidOf pos = cid) (filter validPosition positions) =
   filter (\<lambda>pos. raw_conditionId pos = Some cid) (filter validPosition positions)"
  by (rule filter_cong [OF refl]) (simp add: valid_cidOf)

lemma toOutcome_nonneg: "0 \<le> value' (toOutcome pos) \<and> 0 \<le> size' (toOutcome pos)"
  by (simp add: toOutcome_def)

text \<open>
  C9. The grouping loop computes \<open>groupedPositions\<close>: it skips exactly the records whose
  condition identifier is missing, empty or not \<open>0x\<close> and 64 hexadecimal digits, and
  keeps them as the records warned about; the groups come in the order in which their
  identifiers first appear among the valid records; and each group holds the outcomes of
  its valid records in input order, at least one, with every size and value at least 0
  and \<open>totalValue\<close>, \<open>totalSize\<close> the sums of those values and sizes.
\<close>

theorem grouping_by_condition:
  "fst (groupByCondition positions) = groupedPositions positions
   \<and> snd (groupByCondition positions) = filter (\<lambda>pos. \<not> validPosition pos) positions
   \<and> map conditionId (fst (groupByCondition positions)) =
       firstAppearances (map cidOf (filter validPosition positions))
   \<and> (\<forall>g \<in> set (fst (groupByCondition positions)).
         isValidBytes32 (conditionId g)
       \<and> outcomes g =
           map toOutcome (filter (\<lambda>pos. raw_conditionId pos = Some (conditionId g))
             (filter validPosition positions))
       \<and> outcomes g \<noteq> []
       \<and> totalValue g = sum_list (map value' (outcomes g))
       \<and> totalSize g = sum_list (map size' (outcomes g))
       \<and> (\<forall>out \<in> set (outcomes g). 0 \<le> value' out \<and> 0 \<le> size' out))"
proof (intro conjI ballI)
  let ?V = "filter validPosition positions"
  show g1: "fst (groupByCondition positions) = groupedPositions positions"
    by (simp add: groupByCondition_eq)
  show "snd (groupByCondition positions) = filter (\<lambda>pos. \<not> validPosition pos) positions"
    by (simp add: groupByCondition_eq)
  show "map conditionId (fst (groupByCondition positions)) = firstAppearances (map cidOf ?V)"
    by (simp add: g1 groupedPositions_def groupOf_def comp_def Let_def)
  fix g assume "g \<in> set (fst (groupByCondition positions))"
  then obtain cid where cid: "cid \<in> cidOf ` set ?V" and g: "g = groupOf ?V cid"
    by (auto simp: g1 groupedPositions_def Let_def firstAppearances_set)
  from cid obtain p where p: "p \<in> set positions" "validPosition p" "cidOf p = cid"
    by auto
  have cg: "conditionId g = cid" by (simp add: g groupOf_def Let_def)
  show "isValidBytes32 (conditionId g)"
    using p by (auto simp: cg validPosition_def cidOf_def split: option.splits)
  show o: "outcomes g =
      map toOutcome (filter (\<lambda>pos. raw_conditionId pos = Some (conditionId g)) ?V)"
  proof -
    have "outcomes g = map toOutcome (filter (\<lambda>pos. cidOf pos = cid) ?V)"
      by (simp add: g groupOf_def Let_def del: filter_filter)
    then show ?thesis by (simp only: cg filter_valid_cid)
  qed
  have "p \<in> set (filter (\<lambda>pos. raw_conditionId pos = Some cid) ?V)"
    using p valid_cidOf [of p cid] by simp
  then have "filter (\<lambda>pos. raw_conditionId pos = Some cid) ?V \<noteq> []"
    by (metis empty_iff list.set(1))
  then show "outcomes g \<noteq> []"
    unfolding o cg by (simp del: filter_filter)
  show "totalValue g = sum_list (map value' (outcomes g))"
    by (simp add: g groupOf_def Let_def comp_def toOutcome_def)
  show "totalSize g = sum_list (map size' (outcomes g))"
    by (simp add: g groupOf_def Let_def comp_def toOutcome_def)
  show "0 \<le> value' out" if "out \<in> set (outcomes g)" for out
    using that toOutcome_nonneg by (auto simp: g groupOf_def Let_def)
  show "0 \<le> size' out" if "out \<in> set (outcomes g)" for out
    using that toOutcome_nonneg by (auto simp: g groupOf_def Let_def)
qed

lemmas grouping_eval =
  sampleRecords_def groupedPositions_def validPosition_def cidOf_def groupOf_def toOutcome_def
  isValidBytes32_def isHexDigit_def stringOr_def toBoolean_def numberOr0_def list_all_iff

text \<open>
  On the example input the record with identifier \<open>0xA\<close> is skipped, the two records of
  the first condition form the first group with totals 10 and 10, and the negative size
  of the second condition counts as 0.
\<close>

theorem grouping_by_condition_witness:
  "fst (groupByCondition sampleRecords) =
     [\<lparr>conditionId = ''0x'' @ replicate 64 CHR ''a'', title = ''M1'', negativeRisk = False,
       outcomes = [\<lparr>outcome = ''YES'', outcomeIndex = 0, size' = 10, value' = 10\<rparr>,
                   \<lparr>outcome = ''NO'', outcomeIndex = 1, size' = 0, value' = 0\<rparr>],
       totalValue = 10, totalSize = 10\<rparr>,
      \<lparr>conditionId = ''0x'' @ replicate 64 CHR ''B'', title = ''Unknown Market'', negativeRisk = True,
       outcomes = [\<lparr>outcome = ''YES'', outcomeIndex = 0, size' = 0, value' = 5\<rparr>],
       totalValue = 5, totalSize = 0\<rparr>]
   \<and> length (snd (groupByCondition sampleRecords)) = 1
   \<and> isValidBytes32 (''0x'' @ replicate 64 CHR ''B'')"
proof -
  note t = grouping_by_condition [of sampleRecords]
  have e: "groupedPositions sampleRecords =
     [\<lparr>conditionId = ''0x'' @ replicate 64 CHR ''a'', title = ''M1'', negativeRisk = False,
       outcomes = [\<lparr>outcome = ''YES'', outcomeIndex = 0, size' = 10, value' = 10\<rparr>,
                   \<lparr>outcome = ''NO'', outcomeIndex = 1, size' = 0, value' = 0\<rparr>],
       totalValue = 10, totalSize = 10\<rparr>,
      \<lparr>conditionId = ''0x'' @ replicate 64 CHR ''B'', title = ''Unknown Market'', negativeRisk = True,
       outcomes = [\<lparr>outcome = ''YES'', outcomeIndex = 0, size' = 0, value' = 5\<rparr>],
       totalValue = 5, totalSize = 0\<rparr>]"
    by (simp add: grouping_eval)
  have f: "fst (groupByCondition sampleRecords) = groupedPositions sampleRecords"
    using t by (rule conjunct1)
  have s: "length (snd (groupByCondition sampleRecords)) = 1"
    using t [THEN conjunct2, THEN conjunct1] by (simp add: grouping_eval)
  have b: "\<forall>g \<in> set (fst (groupByCondition sampleRecords)). isValidBytes32 (conditionId g)"
    using t [THEN conjunct2, THEN conjunct2, THEN conjunct2] by blast
  have "isValidBytes32 (''0x'' @ replicate 64 CHR ''B'')"
    using b unfolding f e by simp
  with f e s show ?thesis by simp
qed

section \<open>Properties of the transaction builders\<close>

lemma find_negative_None: "(find (\<lambda>amount. amount < (0::int)) amounts = None) = (\<forall>a \<in> set amounts. 0 \<le> a)"
  by (auto simp: find_None_iff)

lemma negRisk_rejects:
  assumes "amounts = [] \<or> (\<exists>a \<in> set amounts. a < 0)"
  shows "\<exists>msg. createNegRiskRedeemTx enc cid amounts = Inl (ErrorObj msg)"
proof (cases "find (\<lambda>amount. amount < 0) amounts")
  case None
  then have "amounts = []" using assms by (auto simp: find_None_iff)
  then show ?thesis by (simp add: createNegRiskRedeemTx_def)
next
  case (Some a)
  then show ?thesis by (simp add: createNegRiskRedeemTx_def)
qed

lemma negRisk_accepts:
  assumes "isValidBytes32 cid" and "amounts \<noteq> []" and "\<forall>a \<in> set amounts. 0 \<le> a"
  shows "createNegRiskRedeemTx enc cid amounts =
     map_sum id (\<lambda>d. \<lparr>to = negRiskAdapter, data = d, txValue = ''0''\<rparr>)
       (enc NegRiskRedeemPositions [AbiBytes32 cid, AbiUintArray amounts])"
proof -
  have "find (\<lambda>amount. amount < 0) amounts = None"
    using assms(3) by (simp add: find_negative_None)
  then show ?thesis
    using assms(1,2) by (simp add: createNegRiskRedeemTx_def split: sum.splits)
qed

lemma negRisk_js_rejects:
  assumes "amounts = [] \<or> (\<exists>a \<in> set amounts. \<not> isInteger a \<or> a \<le> 0)"
  shows "\<exists>msg. createNegRiskRedeemTx_js enc numberToString cid amounts = Inl (ErrorObj msg)"
proof (cases "find (\<lambda>amount. \<not> isInteger amount \<or> amount \<le> 0) amounts")
  case None
  then have "amounts = []" using assms by (auto simp: find_None_iff)
  then show ?thesis by (simp add: createNegRiskRedeemTx_js_def)
next
  case (Some a)
  then show ?thesis by (simp add: createNegRiskRedeemTx_js_def)
qed

lemma negRisk_js_accepts:
  assumes "isValidBytes32 cid" and "amounts \<noteq> []" and "\<forall>a \<in> set amounts. isInteger a \<and> 0 < a"
  shows "createNegRiskRedeemTx_js enc numberToString cid amounts =
     map_sum id (\<lambda>d. \<lparr>to = negRiskAdapter, data = d, txValue = ''0''\<rparr>)
       (enc NegRiskRedeemPositions [AbiBytes32 cid, AbiUintArray (map floor amounts)])"
proof -
  have "find (\<lambda>amount. \<not> isInteger amount \<or> amount \<le> 0) amounts = None"
    using assms(3) by (auto simp: find_None_iff)
  then show ?thesis
    using assms(1,2) by (simp add: createNegRiskRedeemTx_js_def split: sum.splits)
qed

lemma sampleId_valid: "isValidBytes32 sampleId"
  by (simp add: sampleId_def isValidBytes32_def isHexDigit_def list_all_iff)

text \<open>
  C4, as the code has it. The builder of src/transactions.ts throws an \<open>Error\<close> for
  every list of amounts that is empty or holds a negative value. For a well-formed
  condition identifier and a non-empty list without negative values (zeros allowed) its
  checks pass: the result is the transaction whose payload is what the ABI encoder gives
  for the identifier and the list as passed, unchanged and in order, or the encoder's
  own throw. The builder of redeem.js throws for every list that is empty or holds a
  value that is not a positive integer, zero included, and passes the lists of positive
  integers on in the same way.
\<close>

theorem negRisk_builder_validation:
  "((amounts = [] \<or> (\<exists>a \<in> set amounts. a < 0)) \<longrightarrow>
       (\<exists>msg. createNegRiskRedeemTx enc cid amounts = Inl (ErrorObj msg)))
   \<and> (isValidBytes32 cid \<and> amounts \<noteq> [] \<and> (\<forall>a \<in> set amounts. 0 \<le> a) \<longrightarrow>
       createNegRiskRedeemTx enc cid amounts =
         map_sum id (\<lambda>d. \<lparr>to = negRiskAdapter, data = d, txValue = ''0''\<rparr>)
           (enc NegRiskRedeemPositions [AbiBytes32 cid, AbiUintArray amounts]))
   \<and> ((numbers = [] \<or> (\<exists>a \<in> set numbers. \<not> isInteger a \<or> a \<le> 0)) \<longrightarrow>
       (\<exists>msg. createNegRiskRedeemTx_js enc numberToString cid numbers = Inl (ErrorObj msg)))
   \<and> (isValidBytes32 cid \<and> numbers \<noteq> [] \<and> (\<forall>a \<in> set numbers. isInteger a \<and> 0 < a) \<longrightarrow>
       createNegRiskRedeemTx_js enc numberToString cid numbers =
         map_sum id (\<lambda>d. \<lparr>to = negRiskAdapter, data = d, txValue = ''0''\<rparr>)
           (enc NegRiskRedeemPositions [AbiBytes32 cid, AbiUintArray (map floor numbers)]))"
  using negRisk_rejects [of amounts enc cid] negRisk_accepts [of cid amounts enc]
    negRisk_js_rejects [of numbers enc numberToString cid]
    negRisk_js_accepts [of cid numbers enc numberToString]
  by blast

text \<open>
  With the example encoder: the amounts 0, 5, 3 come back in the payload in that order
  from the TypeScript builder, the empty list is refused by both builders, and the
  JavaScript builder passes 5, 3 on.
\<close>

theorem negRisk_builder_validation_witness:
  "createNegRiskRedeemTx sampleEncoder sampleId [0, 5, 3] =
     Inr \<lparr>to = negRiskAdapter,
          data = (NegRiskRedeemPositions, [AbiBytes32 sampleId, AbiUintArray [0, 5, 3]]),
          txValue = ''0''\<rparr>
   \<and> isl (createNegRiskRedeemTx sampleEncoder sampleId [])
   \<and> isl (createNegRiskRedeemTx_js sampleEncoder sampleNumberToString sampleId [])
   \<and> createNegRiskRedeemTx_js sampleEncoder sampleNumberToString sampleId [5, 3] =
     Inr \<lparr>to = negRiskAdapter,
          data = (NegRiskRedeemPositions, [AbiBytes32 sampleId, AbiUintArray [5, 3]]),
          txValue = ''0''\<rparr>"
proof -
  note a = negRisk_builder_validation [of "[0, 5, 3]" sampleEncoder sampleId "[5, 3]" sampleNumberToString]
  note b = negRisk_builder_validation [of "[]" sampleEncoder sampleId "[]" sampleNumberToString]
  have 1: "createNegRiskRedeemTx sampleEncoder sampleId [0, 5, 3] =
      map_sum id (\<lambda>d. \<lparr>to = negRiskAdapter, data = d, txValue = ''0''\<rparr>)
        (sampleEncoder NegRiskRedeemPositions [AbiBytes32 sampleId, AbiUintArray [0, 5, 3]])"
    by (rule a [THEN conjunct2, THEN conjunct1, rule_format]) (simp add: sampleId_valid)
  have 2: "createNegRiskRedeemTx_js sampleEncoder sampleNumberToString sampleId [5, 3] =
      map_sum id (\<lambda>d. \<lparr>to = negRiskAdapter, data = d, txValue = ''0''\<rparr>)
        (sampleEncoder NegRiskRedeemPositions [AbiBytes32 sampleId, AbiUintArray (map floor [5, 3 :: real])])"
    by (rule a [THEN conjunct2, THEN conjunct2, THEN conjunct2, rule_format])
       (simp add: sampleId_valid isInteger_def)
  have 3: "\<exists>msg. createNegRiskRedeemTx sampleEncoder sampleId [] = Inl (ErrorObj msg)"
    by (rule b [THEN conjunct1, rule_format]) simp
  have 4: "\<exists>msg. createNegRiskRedeemTx_js sampleEncoder sampleNumberToString sampleId [] = Inl (ErrorObj msg)"
    by (rule b [THEN conjunct2, THEN conjunct2, THEN conjunct1, rule_format]) simp
  from 3 have 5: "isl (createNegRiskRedeemTx sampleEncoder sampleId [])" by auto
  from 4 have 6: "isl (createNegRiskRedeemTx_js sampleEncoder sampleNumberToString sampleId [])" by auto
  show ?thesis
    using 1 2 5 6 by (simp add: sampleEncoder_def)
qed

text \<open>
  The claim as stated fails on the code at two inputs: the builder of redeem.js refuses
  the non-empty list of the single non-negative amount 0, and the builder of
  src/transactions.ts refuses the amount 1 under the malformed condition identifier
  \<open>0x12\<close>.
\<close>

theorem negRisk_builder_counterexample:
  "isl (createNegRiskRedeemTx_js sampleEncoder sampleNumberToString sampleId [0])
   \<and> isl (createNegRiskRedeemTx sampleEncoder ''0x12'' [1])"
  by (simp add: createNegRiskRedeemTx_js_def createNegRiskRedeemTx_def sampleId_valid
      isInteger_def isValidBytes32_def)
section \<open>Properties of the redemption results\<close>

lemma caught_cases:
  "(isNullish err \<and> caught err = Inl (typeErrorReading err ''transactionHash''))
   \<or> (\<not> isNullish err \<and> caught err =
         Inr \<lparr>success = False, txHash = None, url = None, error = Some (errorMsgOf err)\<rparr>)"
  by (simp add: caught_def Let_def)

lemma classify_cases:
  "classify txRes = \<lparr>success = False, txHash = None, url = None, error = Some ''No transaction hash''\<rparr>
   \<or> (\<exists>h. h \<noteq> [] \<and> classify txRes =
          \<lparr>success = False, txHash = Some h, url = Some (''https://polygonscan.com/tx/'' @ h), error = None\<rparr>)
   \<or> (\<exists>h. h \<noteq> [] \<and> classify txRes =
          \<lparr>success = True, txHash = Some h, url = Some (''https://polygonscan.com/tx/'' @ h), error = None\<rparr>)"
  by (auto simp: classify_def Let_def split: option.splits)

lemma redeemPosition_cases:
  "(\<exists>err. redeemPosition enc execute pos = caught err)
   \<or> (\<exists>txRes. redeemPosition enc execute pos = Inr (classify txRes))"
  by (auto simp: redeemPosition_def split: sum.splits)

lemma result_shape:
  assumes "redeemPosition enc execute pos = Inr r"
  shows "(\<exists>msg. r = \<lparr>success = False, txHash = None, url = None, error = Some msg\<rparr>)
   \<or> (\<exists>h b. h \<noteq> [] \<and> r =
        \<lparr>success = b, txHash = Some h, url = Some (''https://polygonscan.com/tx/'' @ h), error = None\<rparr>)"
proof -
  from redeemPosition_cases [of enc execute pos] show ?thesis
  proof
    assume "\<exists>err. redeemPosition enc execute pos = caught err"
    then obtain err where "caught err = Inr r" using assms by auto
    then show ?thesis using caught_cases [of err] by auto
  next
    assume "\<exists>txRes. redeemPosition enc execute pos = Inr (classify txRes)"
    then obtain txRes where r: "r = classify txRes" using assms by auto
    from classify_cases [of txRes] show ?thesis
      unfolding r by blast
  qed
qed

lemma success_has_hash:
  assumes "redeemPosition enc execute pos = Inr r" and "success r"
  shows "\<exists>h. h \<noteq> [] \<and> txHash r = Some h
           \<and> url r = Some (''https://polygonscan.com/tx/'' @ h) \<and> error r = None"
  using result_shape [OF assms(1)] assms(2) by auto

text \<open>
  The closure's promise is rejected exactly when the first throw on the position's path
  (while building, from the submission, or from the wait for settlement) is \<open>null\<close> or
  \<open>undefined\<close>; it is then rejected with the \<open>TypeError\<close> of the \<open>catch\<close> block.
\<close>

lemma redeemPosition_rejects:
  "(redeemPosition enc execute pos = Inl e) =
     (\<exists>err. isNullish err \<and> e = typeErrorReading err ''transactionHash''
        \<and> (buildTx enc pos = Inl err
            \<or> (\<exists>tx. buildTx enc pos = Inr tx
                  \<and> (execute tx = Some (Inl err) \<or> execute tx = Some (Inr (Inl err))))))"
  by (auto simp: redeemPosition_def withTimeout_def caught_def Let_def isNullish_def
      split: sum.splits option.splits if_splits)

text \<open>
  C10, as the code has it. Every result of the closure has either both transaction
  fields (\<open>txHash\<close> and \<open>url\<close>) and no \<open>error\<close>, or an \<open>error\<close> and neither
  transaction field: never both sets and never neither. A result with \<open>success: true\<close>
  has the transaction fields; a result with an \<open>error\<close> has \<open>success: false\<close>. The
  transaction fields do not imply success: a transaction that failed on chain gives
  \<open>success: false\<close> with \<open>txHash\<close> and \<open>url\<close> and no \<open>error\<close>.
\<close>

theorem redemption_result_exclusive:
  "(\<forall>r. redeemPosition enc execute pos = Inr r \<longrightarrow>
      ((txHash r \<noteq> None \<and> url r \<noteq> None \<and> error r = None)
        \<or> (txHash r = None \<and> url r = None \<and> error r \<noteq> None))
      \<and> (success r \<longrightarrow> txHash r \<noteq> None \<and> url r \<noteq> None \<and> error r = None)
      \<and> (error r \<noteq> None \<longrightarrow> \<not> success r))
   \<and> (\<forall>h st. buildTx enc pos = Inr tx \<and> execute tx = settlesWith h st tx \<and> h \<noteq> [] \<longrightarrow>
        redeemPosition enc execute pos =
          Inr \<lparr>success = (st \<noteq> ''STATE_FAILED''), txHash = Some h,
               url = Some (''https://polygonscan.com/tx/'' @ h), error = None\<rparr>)"
proof (intro conjI allI impI)
  fix r assume r: "redeemPosition enc execute pos = Inr r"
  show "(txHash r \<noteq> None \<and> url r \<noteq> None \<and> error r = None)
     \<or> (txHash r = None \<and> url r = None \<and> error r \<noteq> None)"
    using result_shape [OF r] by auto
  show "txHash r \<noteq> None" if "success r" using success_has_hash [OF r that] by auto
  show "url r \<noteq> None" if "success r" using success_has_hash [OF r that] by auto
  show "error r = None" if "success r" using success_has_hash [OF r that] by auto
  show "\<not> success r" if "error r \<noteq> None"
    using result_shape [OF r] that by auto
next
  fix h st
  assume "buildTx enc pos = Inr tx \<and> execute tx = settlesWith h st tx \<and> h \<noteq> []"
  then show "redeemPosition enc execute pos =
          Inr \<lparr>success = (st \<noteq> ''STATE_FAILED''), txHash = Some h,
               url = Some (''https://polygonscan.com/tx/'' @ h), error = None\<rparr>"
    by (simp add: redeemPosition_def withTimeout_def settlesWith_def classify_def Let_def)
qed

lemma samplePosition_builds:
  "buildTx sampleEncoder samplePosition =
     Inr \<lparr>to = ctf,
          data = (CtfRedeemPositions,
                  [AbiAddress usdc, AbiBytes32 zeroHash, AbiBytes32 sampleId, AbiUintArray [1, 2]]),
          txValue = ''0''\<rparr>"
  by (simp add: buildTx_def samplePosition_def createCtfRedeemTx_def sampleId_valid sampleEncoder_def)

text \<open>
  The example position, settled by the relayer with a transaction hash: with state
  \<open>STATE_CONFIRMED\<close> the result is a success, with state \<open>STATE_FAILED\<close> it has the
  same transaction fields and \<open>success: false\<close>.
\<close>

theorem redemption_result_exclusive_witness:
  "redeemPosition sampleEncoder (settlesWith ''0x01'' ''STATE_CONFIRMED'') samplePosition =
     Inr \<lparr>success = True, txHash = Some ''0x01'', url = Some ''https://polygonscan.com/tx/0x01'',
          error = None\<rparr>
   \<and> redeemPosition sampleEncoder (settlesWith ''0x01'' ''STATE_FAILED'') samplePosition =
     Inr \<lparr>success = False, txHash = Some ''0x01'', url = Some ''https://polygonscan.com/tx/0x01'',
          error = None\<rparr>
   \<and> txHash \<lparr>success = False, txHash = Some ''0x01'', url = Some ''https://polygonscan.com/tx/0x01'',
          error = None\<rparr> \<noteq> None"
proof -
  let ?tx = "\<lparr>to = ctf,
          data = (CtfRedeemPositions,
                  [AbiAddress usdc, AbiBytes32 zeroHash, AbiBytes32 sampleId, AbiUintArray [1, 2]]),
          txValue = ''0''\<rparr>"
  note a = redemption_result_exclusive [of sampleEncoder "settlesWith ''0x01'' ''STATE_CONFIRMED''"
      samplePosition ?tx, THEN conjunct2, rule_format,
      of "''0x01''" "''STATE_CONFIRMED''"]
  note b = redemption_result_exclusive [of sampleEncoder "settlesWith ''0x01'' ''STATE_FAILED''"
      samplePosition ?tx, THEN conjunct2, rule_format,
      of "''0x01''" "''STATE_FAILED''"]
  note c = redemption_result_exclusive [of sampleEncoder "settlesWith ''0x01'' ''STATE_FAILED''"
      samplePosition ?tx, THEN conjunct1, rule_format]
  have 1: "redeemPosition sampleEncoder (settlesWith ''0x01'' ''STATE_CONFIRMED'') samplePosition =
      Inr \<lparr>success = (''STATE_CONFIRMED'' \<noteq> ''STATE_FAILED''), txHash = Some ''0x01'',
       url = Some (''https://polygonscan.com/tx/'' @ ''0x01''), error = None\<rparr>"
    by (rule a) (simp add: samplePosition_builds)
  have 2: "redeemPosition sampleEncoder (settlesWith ''0x01'' ''STATE_FAILED'') samplePosition =
      Inr \<lparr>success = (''STATE_FAILED'' \<noteq> ''STATE_FAILED''), txHash = Some ''0x01'',
       url = Some (''https://polygonscan.com/tx/'' @ ''0x01''), error = None\<rparr>"
    by (rule b) (simp add: samplePosition_builds)
  have 3: "txHash \<lparr>success = False, txHash = Some ''0x01'', url = Some ''https://polygonscan.com/tx/0x01'',
          error = None\<rparr> \<noteq> None"
    using c [of "\<lparr>success = False, txHash = Some ''0x01'', url = Some ''https://polygonscan.com/tx/0x01'',
          error = None\<rparr>"] 2 by simp
  show ?thesis using 1 2 3 by simp
qed

text \<open>
  Read with the transaction fields tied to \<open>success: true\<close> and the error field to
  \<open>success: false\<close>, the claim fails for a transaction that failed on chain.
\<close>

theorem redemption_result_counterexample:
  "redeemPosition sampleEncoder (settlesWith ''0x01'' ''STATE_FAILED'') samplePosition =
     Inr \<lparr>success = False, txHash = Some ''0x01'', url = Some ''https://polygonscan.com/tx/0x01'',
          error = None\<rparr>
   \<and> \<not> exclusiveBySuccess
        \<lparr>success = False, txHash = Some ''0x01'', url = Some ''https://polygonscan.com/tx/0x01'',
         error = None\<rparr>"
  by (simp add: exclusiveBySuccess_def redeemPosition_def samplePosition_builds withTimeout_def
      settlesWith_def classify_def Let_def)

section \<open>Properties of the aggregate\<close>

lemma results_length:
  "length (results enc client positions) = length positions"
  by (simp add: results_def)

lemma results_nth:
  "i < length positions \<Longrightarrow>
   results enc client positions ! i = redeemPosition enc (client i) (positions ! i)"
  by (simp add: results_def nth_enumerate_eq)

lemma promiseAll_map_Inr:
  "promiseAll (map Inr vs) = Some vs"
  by (induction vs) simp_all

lemma promiseAll_Some_D:
  "promiseAll promises = Some vs \<Longrightarrow> promises = map Inr vs"
  by (induction promises arbitrary: vs rule: promiseAll.induct) (auto split: option.splits)

lemma promiseAll_Some:
  "(promiseAll promises = Some vs) = (promises = map Inr vs)"
  using promiseAll_map_Inr promiseAll_Some_D by blast

lemma promiseAll_None:
  "(promiseAll promises = None) = (\<exists>e. Inl e \<in> set promises)"
  by (induction promises rule: promiseAll.induct) (auto split: option.splits)

lemma success_truthy:
  assumes "results enc client positions = map Inr rs" and "r \<in> set rs" and "success r"
  shows "truthy (txHash r) \<and> txHash r \<noteq> None"
proof -
  from assms(2) obtain i where i: "i < length rs" and ri: "r = rs ! i"
    by (metis in_set_conv_nth)
  have len: "length rs = length positions"
    using assms(1) results_length [of enc client positions] by (metis length_map)
  have "results enc client positions ! i = Inr r"
    using assms(1) i ri by simp
  then have "redeemPosition enc (client i) (positions ! i) = Inr r"
    using results_nth [of i positions enc client] i len by simp
  from success_has_hash [OF this assms(3)] show ?thesis by (auto simp: truthy_def)
qed

lemma map_filter_Some:
  "\<forall>x \<in> set xs. f x \<noteq> None \<Longrightarrow> map Some (List.map_filter f xs) = map f xs"
  by (induction xs) (auto simp: List.map_filter_simps)

text \<open>
  What holds of the aggregate. \<open>main\<close> returns an aggregate exactly when there is no
  position or every closure's promise resolves, that is, when no position's path
  throws \<open>null\<close> or \<open>undefined\<close>. The aggregate then reports the number of positions
  as \<open>total\<close>, the number of results with \<open>success: true\<close> as \<open>redeemed\<close>, and as
  transactions the transaction hashes of exactly the successful results, in order (the
  filter \<open>r.success && r.txHash\<close> drops nothing). A position whose path throws any
  other value has a result with \<open>success: false\<close> and the error text, whatever the
  other positions did.
\<close>

lemma aggregate_of_resolved:
  assumes "results enc client positions = map Inr rs"
  shows "\<exists>m. mainRedeem enc client positions = Some m
     \<and> total m = length positions
     \<and> redeemed m = length (filter success rs)
     \<and> map Some (reported m) = map txHash (filter success rs)"
proof (cases "positions = []")
  case True
  then have "rs = []" using assms by (simp add: results_def)
  then show ?thesis using True by (simp add: mainRedeem_def reported_def)
next
  case False
  have all: "redemptionResults enc client positions = Some rs"
    unfolding redemptionResults_def promiseAll_Some by (rule assms)
  have f: "filter (\<lambda>r. success r \<and> truthy (txHash r)) rs = filter success rs"
    by (rule filter_cong [OF refl]) (use success_truthy [OF assms] in blast)
  have "\<forall>r \<in> set (filter success rs). txHash r \<noteq> None"
    using success_truthy [OF assms] by fastforce
  then have "map Some (List.map_filter txHash (filter success rs)) = map txHash (filter success rs)"
    by (rule map_filter_Some)
  then show ?thesis
    using False by (simp add: mainRedeem_def all reported_def Let_def f)
qed

lemma aggregate_returned:
  "(mainRedeem enc client positions \<noteq> None) =
     (\<forall>i<length positions. \<not> isl (redeemPosition enc (client i) (positions ! i)))"
proof (cases "positions = []")
  case True
  then show ?thesis by (simp add: mainRedeem_def)
next
  case False
  have "(mainRedeem enc client positions \<noteq> None) =
        (promiseAll (results enc client positions) \<noteq> None)"
    using False by (simp add: mainRedeem_def redemptionResults_def Let_def split: option.splits)
  also have "\<dots> = (\<forall>e. Inl e \<notin> set (results enc client positions))"
    by (simp add: promiseAll_None)
  also have "\<dots> = (\<forall>i<length positions. \<not> isl (redeemPosition enc (client i) (positions ! i)))"
  proof
    assume a: "\<forall>e. Inl e \<notin> set (results enc client positions)"
    show "\<forall>i<length positions. \<not> isl (redeemPosition enc (client i) (positions ! i))"
    proof (intro allI impI)
      fix i assume i: "i < length positions"
      then have "results enc client positions ! i \<in> set (results enc client positions)"
        by (simp add: results_length)
      then have "redeemPosition enc (client i) (positions ! i) \<in> set (results enc client positions)"
        by (simp only: results_nth [OF i])
      then show "\<not> isl (redeemPosition enc (client i) (positions ! i))"
        using a by (auto simp: isl_def)
    qed
  next
    assume a: "\<forall>i<length positions. \<not> isl (redeemPosition enc (client i) (positions ! i))"
    show "\<forall>e. Inl e \<notin> set (results enc client positions)"
    proof (intro allI notI)
      fix e assume "Inl e \<in> set (results enc client positions)"
      then obtain i where i: "i < length positions" and ri: "results enc client positions ! i = Inl e"
        by (metis in_set_conv_nth results_length)
      have "redeemPosition enc (client i) (positions ! i) = Inl e"
        using ri by (simp only: results_nth [OF i])
      then show False using a i by auto
    qed
  qed
  finally show ?thesis .
qed

lemma redeemPosition_throw:
  assumes "\<not> isNullish err"
  shows "(buildTx enc pos = Inl err \<longrightarrow> redeemPosition enc execute pos =
            Inr \<lparr>success = False, txHash = None, url = None, error = Some (errorMsgOf err)\<rparr>)
   \<and> (buildTx enc pos = Inr tx \<and> execute tx = None \<longrightarrow>
        redeemPosition enc execute pos =
          Inr \<lparr>success = False, txHash = None, url = None, error = Some ''Relayer execution timed out''\<rparr>)
   \<and> (buildTx enc pos = Inr tx \<and> execute tx = Some (Inl err) \<longrightarrow>
        redeemPosition enc execute pos =
          Inr \<lparr>success = False, txHash = None, url = None, error = Some (errorMsgOf err)\<rparr>)
   \<and> (buildTx enc pos = Inr tx \<and> execute tx = Some (Inr (Inl err)) \<longrightarrow>
        redeemPosition enc execute pos =
          Inr \<lparr>success = False, txHash = None, url = None, error = Some (errorMsgOf err)\<rparr>)"
  using assms
  by (simp add: redeemPosition_def withTimeout_def caught_def errorMsgOf_def isNullish_def Let_def)

lemmas aggregate_eval =
  results_def redemptionResults_def mainRedeem_def enumerate_simps redeemPosition_def
  samplePosition_builds settlesWith_def withTimeout_def classify_def caught_def errorMsgOf_def
  isNullish_def typeErrorReading_def truthy_def List.map_filter_simps Let_def

text \<open>
  C6. The aggregation of the claim holds as long as no position's path throws \<open>null\<close>
  or \<open>undefined\<close> (the lemmas \<open>aggregate_of_resolved\<close>, \<open>aggregate_returned\<close> and
  \<open>redeemPosition_throw\<close>). For such a throw the error is not converted to a result:
  of three positions whose first and third submissions settle with the transactions
  \<open>0x01\<close> and \<open>0x03\<close> and whose second submission is rejected with \<open>undefined\<close>,
  the second closure's promise is rejected with the \<open>TypeError\<close> of its \<open>catch\<close>
  block, \<open>Promise.all\<close> is rejected, and \<open>main\<close> returns no aggregate, although two
  positions were redeemed. When the second submission is rejected with an \<open>Error\<close>
  instead, the aggregate is 2 of 3 with the two transaction hashes.
\<close>

theorem partial_failure_loses_aggregate:
  "results sampleEncoder rejectingClient [samplePosition, samplePosition, samplePosition] =
     [Inr \<lparr>success = True, txHash = Some ''0x01'', url = Some ''https://polygonscan.com/tx/0x01'',
           error = None\<rparr>,
      Inl (ErrorObj ''Cannot read properties of undefined (reading 'transactionHash')''),
      Inr \<lparr>success = True, txHash = Some ''0x03'', url = Some ''https://polygonscan.com/tx/0x03'',
           error = None\<rparr>]
   \<and> mainRedeem sampleEncoder rejectingClient [samplePosition, samplePosition, samplePosition] = None
   \<and> results sampleEncoder sampleClient [samplePosition, samplePosition, samplePosition] =
     [Inr \<lparr>success = True, txHash = Some ''0x01'', url = Some ''https://polygonscan.com/tx/0x01'',
           error = None\<rparr>,
      Inr \<lparr>success = False, txHash = None, url = None, error = Some ''relayer down''\<rparr>,
      Inr \<lparr>success = True, txHash = Some ''0x03'', url = Some ''https://polygonscan.com/tx/0x03'',
           error = None\<rparr>]
   \<and> mainRedeem sampleEncoder sampleClient [samplePosition, samplePosition, samplePosition] =
     Some \<lparr>redeemed = 2, total = 3, transactions = Some [''0x01'', ''0x03'']\<rparr>"
  by (simp add: aggregate_eval rejectingClient_def sampleClient_def)

section \<open>Properties of the semaphore and the redemption loop\<close>

lemma filter_update_length:
  "j < length xs \<Longrightarrow>
   length (filter P (xs[j := y])) + (if P (xs ! j) then 1 else 0) =
   length (filter P xs) + (if P y then 1 else 0)"
proof (induction xs arbitrary: j)
  case Nil
  then show ?case by simp
next
  case (Cons x xs)
  then show ?case by (cases j) (auto split: if_splits)
qed

lemma unfinished_update_Finished:
  assumes "j < length xs" and "xs ! j \<noteq> Finished"
  shows "length (filter (\<lambda>p. p \<noteq> Finished) (xs[j := Finished])) + 1 =
         length (filter (\<lambda>p. p \<noteq> Finished) xs)"
  using filter_update_length [OF assms(1), of "\<lambda>p. p \<noteq> Finished" Finished] assms(2) by simp

lemma unfinished_update_Submitted:
  assumes "j < length xs" and "xs ! j = Executing"
  shows "length (filter (\<lambda>p. p \<noteq> Finished) (xs[j := Submitted])) =
         length (filter (\<lambda>p. p \<noteq> Finished) xs)"
  using filter_update_length [OF assms(1), of "\<lambda>p. p \<noteq> Finished" Submitted] assms(2) by simp

lemma releasePermit_inv:
  assumes "maxConcurrent (semaphore s) = n"
    and "current (semaphore s) = int (holders s) + 1"
    and "current (semaphore s) \<le> n"
    and "waitQueue (semaphore s) = (case pc s of Waiting i \<Rightarrow> [i] | _ \<Rightarrow> [])"
  shows "semInv n (releasePermit s)"
  using assms
  by (cases "pc s")
     (auto simp: semInv_def releasePermit_def release_def holders_def Let_def)

lemma step_inv:
  assumes "semInv n s" and "step s e = Some s1"
  shows "semInv n s1"
proof (cases e)
  case MainAcquire
  then show ?thesis
    using assms
    by (auto simp: semInv_def acquire_def holders_def split: mainPc.splits if_splits)
next
  case (MainStart built)
  show ?thesis
  proof (cases built)
    case True
    then show ?thesis
      using assms MainStart
      by (auto simp: semInv_def holders_def Let_def split: mainPc.splits if_splits)
  next
    case False
    from assms MainStart False obtain i where i: "pc s = Admitted i"
      and s1: "s1 = releasePermit
          (s\<lparr>pc := (if i + 1 < npositions s then Pausing i else AwaitingAll),
             tasks := tasks s @ [Finished]\<rparr>)"
      by (auto simp: Let_def split: mainPc.splits)
    show ?thesis
      unfolding s1
      by (rule releasePermit_inv)
         (use assms(1) i in \<open>auto simp: semInv_def holders_def\<close>)
  qed
next
  case MainResume
  then show ?thesis
    using assms
    by (auto simp: semInv_def holders_def split: mainPc.splits)
next
  case (ExecuteResolved j)
  then show ?thesis
    using assms
    by (auto simp: semInv_def holders_def unfinished_update_Submitted split: if_splits)
next
  case (ExecuteFailed j)
  with assms have j: "j < length (tasks s)" "tasks s ! j = Executing"
    and s1: "s1 = releasePermit (s\<lparr>tasks := (tasks s)[j := Finished]\<rparr>)"
    by (auto split: if_splits)
  have "length (filter (\<lambda>p. p \<noteq> Finished) ((tasks s)[j := Finished])) + 1 =
      length (filter (\<lambda>p. p \<noteq> Finished) (tasks s))"
    using j by (intro unfinished_update_Finished) auto
  then show ?thesis
    unfolding s1
    by (intro releasePermit_inv) (use assms(1) in \<open>auto simp: semInv_def holders_def\<close>)
next
  case (Settled j)
  with assms have j: "j < length (tasks s)" "tasks s ! j = Submitted"
    and s1: "s1 = releasePermit (s\<lparr>tasks := (tasks s)[j := Finished]\<rparr>)"
    by (auto split: if_splits)
  have "length (filter (\<lambda>p. p \<noteq> Finished) ((tasks s)[j := Finished])) + 1 =
      length (filter (\<lambda>p. p \<noteq> Finished) (tasks s))"
    using j by (intro unfinished_update_Finished) auto
  then show ?thesis
    unfolding s1
    by (intro releasePermit_inv) (use assms(1) in \<open>auto simp: semInv_def holders_def\<close>)
next
  case AllSettled
  then show ?thesis
    using assms
    by (auto simp: semInv_def holders_def split: if_splits)
qed

lemma run_inv: "semInv n s \<Longrightarrow> run s events = Some s1 \<Longrightarrow> semInv n s1"
proof (induction events arbitrary: s)
  case Nil
  then show ?case by simp
next
  case (Cons e events)
  then show ?case by (auto split: option.splits dest: step_inv)
qed

lemma initial_inv: "0 \<le> n \<Longrightarrow> semInv n (initial n k)"
  by (simp add: semInv_def initial_def holders_def)

lemma submitted_le_holders: "submitted s \<le> holders s"
proof -
  have "length (filter (\<lambda>p. p = Submitted) xs) \<le> length (filter (\<lambda>p. p \<noteq> Finished) xs)" for xs
    by (induction xs) auto
  then show ?thesis by (simp add: submitted_def holders_def trans_le_add1)
qed

text \<open>
  C3. With a permit count \<open>n \<ge> 0\<close>, in every state the redemption loop can reach,
  whatever the interleaving of the loop and its closures and whatever the outcome of
  each closure: the semaphore's count is the number of permits out (one per closure that
  has not finished, one for the loop between its admission and the start of its
  closure), it is at least 0 and at most \<open>n\<close>, and at most \<open>n\<close> positions are
  submitted and awaiting settlement. A closure holds a permit from before its
  transaction is built until it finishes, by success, failure or throw; whenever a
  release can happen the count is at least 1, so it does not pass below 0 inside
  \<open>release\<close> either.
\<close>

theorem semaphore_bounds_concurrency:
  assumes "0 \<le> n" and "run (initial n k) events = Some s"
  shows "0 \<le> current (semaphore s) \<and> current (semaphore s) \<le> n
    \<and> current (semaphore s) = int (holders s)
    \<and> int (submitted s) \<le> n
    \<and> ((\<exists>j<length (tasks s). tasks s ! j \<noteq> Finished) \<longrightarrow> 1 \<le> current (semaphore s))
    \<and> ((\<exists>i. pc s = Admitted i) \<longrightarrow> 1 \<le> current (semaphore s))"
proof -
  have inv: "semInv n s"
    using initial_inv [OF assms(1)] assms(2) by (rule run_inv)
  then have c: "current (semaphore s) = int (holders s)" and le: "current (semaphore s) \<le> n"
    by (simp_all add: semInv_def)
  have sub: "int (submitted s) \<le> n"
    using submitted_le_holders [of s] c le by linarith
  have one: "1 \<le> current (semaphore s)" if "\<exists>j<length (tasks s). tasks s ! j \<noteq> Finished"
  proof -
    from that obtain j where "j < length (tasks s)" "tasks s ! j \<noteq> Finished" by blast
    then have "tasks s ! j \<in> set (filter (\<lambda>p. p \<noteq> Finished) (tasks s))" by simp
    then have "filter (\<lambda>p. p \<noteq> Finished) (tasks s) \<noteq> []" by (metis empty_iff list.set(1))
    then have "1 \<le> holders s"
      by (simp add: holders_def Suc_le_eq trans_less_add1)
    then show ?thesis using c by simp
  qed
  have adm: "1 \<le> current (semaphore s)" if "\<exists>i. pc s = Admitted i"
    using that c by (auto simp: holders_def)
  show ?thesis using c le sub one adm by simp
qed

lemma sample_run:
  "run (initial 2 5) sampleEvents =
     Some \<lparr>semaphore = \<lparr>maxConcurrent = 2, current = 2, waitQueue = []\<rparr>,
           pc = Admitted 2, tasks = [Finished, Submitted], npositions = 5\<rparr>"
  by (simp add: sampleEvents_def initial_def acquire_def releasePermit_def release_def Let_def)

text \<open>
  On the example run the loop has been handed the permit of the closure that settled,
  the count is still 2, and one position is awaiting settlement.
\<close>

theorem semaphore_bounds_concurrency_witness:
  "(0::int) \<le> 2
   \<and> run (initial 2 5) sampleEvents =
       Some \<lparr>semaphore = \<lparr>maxConcurrent = 2, current = 2, waitQueue = []\<rparr>,
             pc = Admitted 2, tasks = [Finished, Submitted], npositions = 5\<rparr>
   \<and> holders \<lparr>semaphore = \<lparr>maxConcurrent = 2, current = 2, waitQueue = []\<rparr>,
             pc = Admitted 2, tasks = [Finished, Submitted], npositions = 5\<rparr> = 2
   \<and> int (submitted \<lparr>semaphore = \<lparr>maxConcurrent = 2, current = 2, waitQueue = []\<rparr>,
             pc = Admitted 2, tasks = [Finished, Submitted], npositions = 5\<rparr>) \<le> 2"
proof -
  have h: "(0::int) \<le> 2" by simp
  note t = semaphore_bounds_concurrency [OF h sample_run]
  have "int (holders \<lparr>semaphore = \<lparr>maxConcurrent = 2, current = 2, waitQueue = []\<rparr>,
             pc = Admitted 2, tasks = [Finished, Submitted], npositions = 5\<rparr>) = 2"
    using t by simp
  then have "holders \<lparr>semaphore = \<lparr>maxConcurrent = 2, current = 2, waitQueue = []\<rparr>,
             pc = Admitted 2, tasks = [Finished, Submitted], npositions = 5\<rparr> = 2"
    by linarith
  then show ?thesis using t sample_run by simp
qed

end
